theory Spec2Isabelle
  imports Complex_Main
begin

section \<open>Numbers, points and the time base\<close>

text \<open>
  The source computes with JavaScript numbers. They are modelled as the real numbers
  they denote, with exact arithmetic: the values NaN, the two infinities and the negative
  zero have no counterpart here (a division by the zero of the source is written out where
  it occurs), and rounding is not modelled. A point is the pair \<^verbatim>\<open>[x, y]\<close> of the source:
  time-position and amplitude, with the y-axis of the drawing surface growing downwards.

  Rounding moves a value by a few units in its last place. Where the value bounds a loop
  and rounds across a whole number, the source runs the loop once more or once less than
  the model: with \<^verbatim>\<open>pr: 0.2\<close> at 125 pixels per second the source computes the PR
  length 15.000000000000002 and writes 16 PR samples, the last of them at the position
  where the QRS complex starts, and the model writes 15. At the options and densities
  that \<^verbatim>\<open>buildStrip\<close> passes, every loop runs the same number of times in both. The
  theorems that speak of every options record say nothing of the number of samples of a
  segment, and nothing that such an extra sample would break.
\<close>

type_synonym Point = "real \<times> real"

definition SMALL_BOX :: real where
  "SMALL_BOX = 5"

definition PX_PER_SEC :: real where
  "PX_PER_SEC = SMALL_BOX * 25"

definition STRIP_SECONDS :: real where
  "STRIP_SECONDS = 6"

definition STRIP_WIDTH :: real where
  "STRIP_WIDTH = PX_PER_SEC * STRIP_SECONDS"

text \<open>
  \<^verbatim>\<open>for (let i = 0; i < bound; i++) points.push(body(i))\<close>: the counter is a natural
  number compared with a real bound; the result lists the pushed points in order.
\<close>

function forPush :: "real \<Rightarrow> (nat \<Rightarrow> Point) \<Rightarrow> nat \<Rightarrow> Point list" where
  "forPush bound body i =
     (if real i < bound then body i # forPush bound body (Suc i) else [])"
  by pat_completeness auto
termination
  by (relation "measure (\<lambda>(bound, body, i). nat \<lceil>bound\<rceil> - i)") (auto, linarith)

declare forPush.simps [simp del]

section \<open>The beat sampler\<close>

record BeatOptions =
  amp :: "real option"
  pr :: "real option"
  qrs :: "real option"
  stElevation :: "real option"
  tPolarity :: "real option"

text \<open>A destructuring default: the given value when the field is absent.\<close>

definition orDefault :: "real \<Rightarrow> real option \<Rightarrow> real" where
  "orDefault d v = (case v of None \<Rightarrow> d | Some x \<Rightarrow> x)"

definition noOptions :: BeatOptions where
  "noOptions = \<lparr>amp = None, pr = None, qrs = None, stElevation = None, tPolarity = None\<rparr>"

definition baseline :: real where
  "baseline = 90"

text \<open>The durations, in pixels, that \<^verbatim>\<open>genNormalBeat\<close> computes from its arguments.\<close>

definition pDuration :: "real \<Rightarrow> real" where
  "pDuration pxPerSec = 0.08 * pxPerSec"

definition prSegment :: "BeatOptions \<Rightarrow> real \<Rightarrow> real" where
  "prSegment options pxPerSec = max 0 (orDefault 0.16 (pr options) - 0.08) * pxPerSec"

definition qrsDuration :: "BeatOptions \<Rightarrow> real \<Rightarrow> real" where
  "qrsDuration options pxPerSec = orDefault 0.08 (qrs options) * pxPerSec"

definition stSegment :: "real \<Rightarrow> real" where
  "stSegment pxPerSec = 0.08 * pxPerSec"

definition tDuration :: "real \<Rightarrow> real" where
  "tDuration pxPerSec = 0.16 * pxPerSec"

definition returnDuration :: "real \<Rightarrow> real" where
  "returnDuration pxPerSec = 0.04 * pxPerSec"

text \<open>The six loops of \<^verbatim>\<open>genNormalBeat\<close>, each with the start position it is given.\<close>

definition pWave :: "real \<Rightarrow> real \<Rightarrow> BeatOptions \<Rightarrow> Point list" where
  "pWave x0 pxPerSec options =
     forPush (pDuration pxPerSec)
       (\<lambda>i. (x0 + real i,
             baseline - sin (real i / pDuration pxPerSec * pi) * (orDefault 22 (amp options) * 0.25))) 0"

definition prPoints :: "real \<Rightarrow> real \<Rightarrow> BeatOptions \<Rightarrow> Point list" where
  "prPoints x0 pxPerSec options =
     forPush (prSegment options pxPerSec) (\<lambda>i. (x0 + pDuration pxPerSec + real i, baseline)) 0"

definition qrsShape :: "real \<Rightarrow> real" where
  "qrsShape t = (if t < 0.15 then - 0.3 else if t < 0.5 then 1.2 else if t < 0.85 then - 0.4 else 0)"

definition qrsPoints :: "real \<Rightarrow> real \<Rightarrow> BeatOptions \<Rightarrow> Point list" where
  "qrsPoints cursor pxPerSec options =
     forPush (qrsDuration options pxPerSec)
       (\<lambda>i. (cursor + real i,
             baseline - qrsShape (real i / qrsDuration options pxPerSec) * orDefault 22 (amp options))) 0"

definition stPoints :: "real \<Rightarrow> real \<Rightarrow> BeatOptions \<Rightarrow> Point list" where
  "stPoints cursor pxPerSec options =
     forPush (stSegment pxPerSec)
       (\<lambda>i. (cursor + real i, baseline - orDefault 0 (stElevation options))) 0"

definition tWave :: "real \<Rightarrow> real \<Rightarrow> BeatOptions \<Rightarrow> Point list" where
  "tWave cursor pxPerSec options =
     forPush (tDuration pxPerSec)
       (\<lambda>i. (cursor + real i,
             baseline - sin (real i / tDuration pxPerSec * pi) * (orDefault 22 (amp options) * 0.4)
               * orDefault 1 (tPolarity options))) 0"

definition returnPoints :: "real \<Rightarrow> real \<Rightarrow> Point list" where
  "returnPoints cursor pxPerSec =
     forPush (returnDuration pxPerSec) (\<lambda>i. (cursor + tDuration pxPerSec + real i, baseline)) 0"

text \<open>The three values the variable \<^verbatim>\<open>cursor\<close> takes: at the QRS, the ST segment and the T wave.\<close>

definition qrsStart :: "real \<Rightarrow> real \<Rightarrow> BeatOptions \<Rightarrow> real" where
  "qrsStart x0 pxPerSec options = x0 + pDuration pxPerSec + prSegment options pxPerSec"

definition stStart :: "real \<Rightarrow> real \<Rightarrow> BeatOptions \<Rightarrow> real" where
  "stStart x0 pxPerSec options = qrsStart x0 pxPerSec options + qrsDuration options pxPerSec"

definition tStart :: "real \<Rightarrow> real \<Rightarrow> BeatOptions \<Rightarrow> real" where
  "tStart x0 pxPerSec options = stStart x0 pxPerSec options + stSegment pxPerSec"

definition genNormalBeat :: "real \<Rightarrow> real \<Rightarrow> BeatOptions \<Rightarrow> Point list" where
  "genNormalBeat x0 pxPerSec options =
     pWave x0 pxPerSec options
     @ prPoints x0 pxPerSec options
     @ qrsPoints (qrsStart x0 pxPerSec options) pxPerSec options
     @ stPoints (stStart x0 pxPerSec options) pxPerSec options
     @ tWave (tStart x0 pxPerSec options) pxPerSec options
     @ returnPoints (tStart x0 pxPerSec options) pxPerSec"

text \<open>
  The time-positions of a beat, and the sum of its six durations in pixels (the P wave,
  the PR segment, the QRS complex, the ST segment, the T wave and the return to baseline).
\<close>

definition beatTimes :: "real \<Rightarrow> real \<Rightarrow> BeatOptions \<Rightarrow> real list" where
  "beatTimes x0 pxPerSec options = map fst (genNormalBeat x0 pxPerSec options)"

definition beatSpan :: "BeatOptions \<Rightarrow> real \<Rightarrow> real" where
  "beatSpan options pxPerSec =
     pDuration pxPerSec + prSegment options pxPerSec + qrsDuration options pxPerSec
       + stSegment pxPerSec + tDuration pxPerSec + returnDuration pxPerSec"

text \<open>No two successive time-positions are more than one pixel apart.\<close>

fun stepsAtMostOne :: "real list \<Rightarrow> bool" where
  "stepsAtMostOne [] = True"
| "stepsAtMostOne [x] = True"
| "stepsAtMostOne (x # y # ts) = (y - x \<le> 1 \<and> stepsAtMostOne (y # ts))"

text \<open>
  A run of time-positions that fills the window from \<open>a\<close> up to \<open>b\<close>: it starts at
  \<open>a\<close>, increases strictly in steps of at most one, and ends less than one step before
  \<open>b\<close>; a run with no sample fills the empty window only.
\<close>

definition covers :: "real \<Rightarrow> real \<Rightarrow> real list \<Rightarrow> bool" where
  "covers a b ts =
     (if ts = [] then a = b
      else hd ts = a \<and> sorted_wrt (<) ts \<and> stepsAtMostOne ts \<and> b - 1 \<le> last ts \<and> last ts < b)"

section \<open>Cropping\<close>

text \<open>
  \<^verbatim>\<open>points.filter(([x]) => x >= start && x <= end).map(([x, y]) => [x - start, y])\<close>
\<close>

definition cropPoints :: "Point list \<Rightarrow> real \<Rightarrow> real \<Rightarrow> Point list" where
  "cropPoints points start endv =
     map (\<lambda>(x, y). (x - start, y)) (filter (\<lambda>(x, y). x \<ge> start \<and> x \<le> endv) points)"

section \<open>The strip composers\<close>

text \<open>
  The only failure the generators can meet: \<^verbatim>\<open>points[index][1] = y\<close> with an index that
  is not an element of the array reads \<^verbatim>\<open>undefined\<close> and the assignment throws a
  TypeError. A generator's result is \<open>None\<close> when its loop never ends,
  \<open>Some (Inl e)\<close> when it throws and \<open>Some (Inr points)\<close> when it returns.
\<close>

datatype error = TypeError

definition setY :: "Point list \<Rightarrow> int \<Rightarrow> real \<Rightarrow> error + Point list" where
  "setY points index y =
     (if 0 \<le> index \<and> index < int (length points)
      then Inr (points[nat index := (fst (points ! nat index), y)])
      else Inl TypeError)"

definition returned :: "Point list option \<Rightarrow> (error + Point list) option" where
  "returned r = map_option Inr r"

text \<open>
  The tiling loop that \<^verbatim>\<open>genSinusStrip\<close> and six branches of \<^verbatim>\<open>buildStrip\<close>
  share:
  \<^verbatim>\<open>while (cursor < STRIP_WIDTH - 10) { points.push(...beat); cursor += step; beatIndex += 1 }\<close>.
  The beat is a function of the cursor and of the beat index (which only the
  \<^verbatim>\<open>sinus_pac\<close> branch keeps). The loop runs forever when the step is not positive.
\<close>

partial_function (option) beatLoop ::
  "(real \<Rightarrow> nat \<Rightarrow> Point list) \<Rightarrow> real \<Rightarrow> real \<Rightarrow> nat \<Rightarrow> Point list \<Rightarrow> Point list option" where
  "beatLoop beat step cursor beatIndex points =
     (if cursor < STRIP_WIDTH - 10
      then beatLoop beat step (cursor + step) (beatIndex + 1) (points @ beat cursor beatIndex)
      else Some points)"

text \<open>
  \<^verbatim>\<open>genSinusStrip(bpm, options)\<close>, with \<^verbatim>\<open>rr = 60 / bpm\<close> and the step
  \<^verbatim>\<open>rr * PX_PER_SEC\<close>. At \<^verbatim>\<open>bpm = 0\<close> the source divides by zero: the step is
  infinite, so the loop leaves after its first beat.
\<close>

definition genSinusStrip :: "real \<Rightarrow> BeatOptions \<Rightarrow> Point list option" where
  "genSinusStrip bpm options =
     (if bpm = 0 then Some (genNormalBeat 10 PX_PER_SEC options)
      else beatLoop (\<lambda>cursor beatIndex. genNormalBeat cursor PX_PER_SEC options)
             (60 / bpm * PX_PER_SEC) 10 0 [])"

subsection \<open>Atrial flutter\<close>

text \<open>The remainder \<^verbatim>\<open>a % b\<close>: the quotient is truncated towards zero.\<close>

definition jsRem :: "real \<Rightarrow> real \<Rightarrow> real" where
  "jsRem a b = a - b * (if 0 \<le> a / b then of_int \<lfloor>a / b\<rfloor> else of_int \<lceil>a / b\<rceil>)"

text \<open>The first loop of \<^verbatim>\<open>genAflutter\<close>: the sawtooth baseline.\<close>

definition flutterWaves :: "real \<Rightarrow> real \<Rightarrow> real \<Rightarrow> Point list" where
  "flutterWaves width ampv pixelsPerWave =
     forPush width
       (\<lambda>i. (real i,
             baseline - \<bar>jsRem (real i) pixelsPerWave / pixelsPerWave - 0.5\<bar> * 2 * ampv * 0.5)) 0"

text \<open>
  The inner loop over \<^verbatim>\<open>k\<close>: each round writes the amplitude of the element at
  \<^verbatim>\<open>Math.min(points.length - 1, Math.floor(start + k))\<close>.
\<close>

function flutterSpike :: "real \<Rightarrow> real \<Rightarrow> nat \<Rightarrow> Point list \<Rightarrow> error + Point list" where
  "flutterSpike width start k points =
     (if real k < 0.08 * width
      then (case setY points (min (int (length points) - 1) \<lfloor>start + real k\<rfloor>)
                   (90 - (if real k < 0.02 * width then - 4
                          else if real k < 0.04 * width then 20 else - 6)) of
              Inl e \<Rightarrow> Inl e
            | Inr points' \<Rightarrow> flutterSpike width start (Suc k) points')
      else Inr points)"
  by pat_completeness auto
termination
  by (relation "measure (\<lambda>(width, start, k, points). nat \<lceil>0.08 * width\<rceil> - k)") (auto, linarith)

declare flutterSpike.simps [simp del]

text \<open>The outer loop over \<^verbatim>\<open>start\<close>, which advances by four flutter waves.\<close>

partial_function (option) flutterBeats ::
  "real \<Rightarrow> real \<Rightarrow> real \<Rightarrow> Point list \<Rightarrow> (error + Point list) option" where
  "flutterBeats width pixelsPerWave start points =
     (if start < width
      then (case flutterSpike width start 0 points of
              Inl e \<Rightarrow> Some (Inl e)
            | Inr points' \<Rightarrow> flutterBeats width pixelsPerWave (start + pixelsPerWave * 4) points')
      else Some (Inr points))"

text \<open>
  \<^verbatim>\<open>genAflutter(width, amp = 18, rate = 300)\<close>. At \<^verbatim>\<open>rate = 0\<close> the source divides by
  zero: the flutter period and the length of a wave are infinite, so every sample sits at
  the wave position 0, and the outer loop, whose start becomes infinite, leaves after its
  first round (it does not run at all unless the width is positive).
\<close>

definition genAflutter :: "real \<Rightarrow> real \<Rightarrow> real \<Rightarrow> (error + Point list) option" where
  "genAflutter width ampv rate =
     (if rate = 0
      then (let points = forPush width (\<lambda>i. (real i, baseline - \<bar>0 - 0.5\<bar> * 2 * ampv * 0.5)) 0
            in if 0 < width then Some (flutterSpike width 0 0 points) else Some (Inr points))
      else (let flutterPeriod = 60 / rate;
                pixelsPerWave = width * flutterPeriod
            in flutterBeats width pixelsPerWave 0 (flutterWaves width ampv pixelsPerWave)))"

text \<open>
  The indices one run of the inner loop writes, in an array of \<open>len\<close> elements, and the
  indices the whole overlay writes at the default rate of 300: for a positive width the
  outer loop runs twice, from the start positions 0 and four flutter waves.
\<close>

definition spikeIndices :: "real \<Rightarrow> real \<Rightarrow> nat \<Rightarrow> nat list" where
  "spikeIndices width start len =
     map (\<lambda>k. nat (min (int len - 1) \<lfloor>start + real k\<rfloor>)) [0..<nat \<lceil>0.08 * width\<rceil>]"

definition flutterWindows :: "real \<Rightarrow> nat list" where
  "flutterWindows width =
     spikeIndices width 0 (nat \<lceil>width\<rceil>)
     @ spikeIndices width (width * (60 / 300) * 4) (nat \<lceil>width\<rceil>)"

subsection \<open>Atrial fibrillation\<close>

text \<open>
  \<^verbatim>\<open>rand(min, max) = Math.random() * (max - min) + min\<close>. The results of
  \<^verbatim>\<open>Math.random()\<close> are a sequence \<open>draws\<close> of numbers from 0 up to but not
  including 1, read in order; \<open>rand\<close> takes the draw it consumes.
\<close>

definition rand :: "real \<Rightarrow> real \<Rightarrow> real \<Rightarrow> real" where
  "rand u lo hi = u * (hi - lo) + lo"

text \<open>The first loop of \<^verbatim>\<open>genAfib\<close>: a random walk, one draw for each sample.\<close>

function afibWalk :: "real \<Rightarrow> (nat \<Rightarrow> real) \<Rightarrow> nat \<Rightarrow> real \<Rightarrow> Point list" where
  "afibWalk width draws i y =
     (if real i < width
      then (let y' = y + rand (draws i) (- 1.2) 1.2
            in (real i, y') # afibWalk width draws (Suc i) y')
      else [])"
  by pat_completeness auto
termination
  by (relation "measure (\<lambda>(width, draws, i, y). nat \<lceil>width\<rceil> - i)") (auto, linarith)

declare afibWalk.simps [simp del]

text \<open>
  The inner loop over \<^verbatim>\<open>k\<close>, guarded by
  \<^verbatim>\<open>k < 0.06 * width && cursor + k < width\<close>; it writes at
  \<^verbatim>\<open>Math.floor(cursor + k)\<close>.
\<close>

function afibSpike :: "real \<Rightarrow> real \<Rightarrow> nat \<Rightarrow> Point list \<Rightarrow> error + Point list" where
  "afibSpike width cursor k points =
     (if real k < 0.06 * width \<and> cursor + real k < width
      then (case setY points \<lfloor>cursor + real k\<rfloor>
                   (90 - (if real k < 0.02 * width then - 4
                          else if real k < 0.03 * width then 18 else - 6)) of
              Inl e \<Rightarrow> Inl e
            | Inr points' \<Rightarrow> afibSpike width cursor (Suc k) points')
      else Inr points)"
  by pat_completeness auto
termination
  by (relation "measure (\<lambda>(width, cursor, k, points). nat \<lceil>0.06 * width\<rceil> - k)") (auto, linarith)

declare afibSpike.simps [simp del]

text \<open>
  The \<^verbatim>\<open>while (cursor < width)\<close> loop; \<open>n\<close> is the number of draws used so far, and
  each round draws \<^verbatim>\<open>rr\<close> before it writes its spike.
\<close>

partial_function (option) afibBeats ::
  "real \<Rightarrow> (nat \<Rightarrow> real) \<Rightarrow> nat \<Rightarrow> real \<Rightarrow> Point list \<Rightarrow> (error + Point list) option" where
  "afibBeats width draws n cursor points =
     (if cursor < width
      then (let rr = rand (draws n) 0.5 1.1 * width * 0.2
            in case afibSpike width cursor 0 points of
                 Inl e \<Rightarrow> Some (Inl e)
               | Inr points' \<Rightarrow> afibBeats width draws (Suc n) (cursor + rr) points')
      else Some (Inr points))"

definition genAfib :: "real \<Rightarrow> (nat \<Rightarrow> real) \<Rightarrow> (error + Point list) option" where
  "genAfib width draws =
     (let points = afibWalk width draws 0 baseline
      in afibBeats width draws (length points) 0 points)"

subsection \<open>Dispatch\<close>

text \<open>
  \<^verbatim>\<open>buildStrip(kind)\<close>. The type \<^verbatim>\<open>StripKind\<close> is a union of eleven string
  literals, which the compiler checks and the running program does not: the identifier
  is a string, compared with each literal in the order of the source.
\<close>

definition buildStrip :: "string \<Rightarrow> (nat \<Rightarrow> real) \<Rightarrow> (error + Point list) option" where
  "buildStrip kind draws =
     (if kind = ''sinus'' then returned (genSinusStrip 75 noOptions)
      else if kind = ''sinus_brady'' then returned (genSinusStrip 48 noOptions)
      else if kind = ''sinus_tachy'' then returned (genSinusStrip 120 noOptions)
      else if kind = ''aflutter'' then genAflutter STRIP_WIDTH 18 300
      else if kind = ''afib'' then genAfib STRIP_WIDTH draws
      else if kind = ''sinus_pac'' then
        returned (beatLoop
          (\<lambda>cursor beatIndex.
             let earlyOffset = (if beatIndex = 2 then max (- cursor + 2) (- 0.3 * PX_PER_SEC) else 0)
             in genNormalBeat (cursor + earlyOffset) PX_PER_SEC (noOptions\<lparr>pr := Some 0.14\<rparr>))
          (0.8 * PX_PER_SEC) 10 0 [])
      else if kind = ''psvt'' then
        returned (beatLoop
          (\<lambda>cursor beatIndex. genNormalBeat cursor (PX_PER_SEC * 0.7)
             (noOptions\<lparr>amp := Some 18, pr := Some 0.1, qrs := Some 0.06\<rparr>))
          (0.4 * PX_PER_SEC) 10 0 [])
      else if kind = ''junctional'' then
        returned (beatLoop
          (\<lambda>cursor beatIndex. genNormalBeat cursor PX_PER_SEC
             (noOptions\<lparr>amp := Some 16, pr := Some 0.06, tPolarity := Some (- 1)\<rparr>))
          (1.0 * PX_PER_SEC) 10 0 [])
      else if kind = ''firstdeg'' then
        returned (beatLoop
          (\<lambda>cursor beatIndex. genNormalBeat cursor PX_PER_SEC (noOptions\<lparr>pr := Some 0.26\<rparr>))
          (0.8 * PX_PER_SEC) 10 0 [])
      else if kind = ''stemi_inferior'' then
        returned (beatLoop
          (\<lambda>cursor beatIndex. genNormalBeat cursor PX_PER_SEC (noOptions\<lparr>stElevation := Some (- 6)\<rparr>))
          (0.8 * PX_PER_SEC) 10 0 [])
      else if kind = ''nstemi'' then
        returned (beatLoop
          (\<lambda>cursor beatIndex. genNormalBeat cursor PX_PER_SEC
             (noOptions\<lparr>stElevation := Some 3, tPolarity := Some (- 1)\<rparr>))
          (0.8 * PX_PER_SEC) 10 0 [])
      else returned (genSinusStrip 75 noOptions))"

text \<open>
  The time-position of the last sample of a beat: the last one that the loop of the
  return to baseline writes.
\<close>

definition beatEnd :: "real \<Rightarrow> real \<Rightarrow> BeatOptions \<Rightarrow> real" where
  "beatEnd x0 pxPerSec options =
     tStart x0 pxPerSec options + tDuration pxPerSec + real (nat \<lceil>returnDuration pxPerSec\<rceil> - 1)"

text \<open>
  A generator returns a strip that reaches the time-position \<open>e\<close>: no sample lies
  before 0 or beyond \<open>e\<close>, and one lies at \<open>e\<close>.
\<close>

definition reaches :: "(error + Point list) option \<Rightarrow> real \<Rightarrow> bool" where
  "reaches r e =
     (case r of
        Some (Inr points) \<Rightarrow>
          list_all (\<lambda>p. 0 \<le> fst p \<and> fst p \<le> e) points \<and> list_ex (\<lambda>p. fst p = e) points
      | _ \<Rightarrow> False)"

text \<open>
  The cursor positions of a loop that starts at 10 and advances by 100 pixels (0.8 s at
  125 pixels per second) while the cursor is below 740.
\<close>

definition starts100 :: "real list" where
  "starts100 = [10, 110, 210, 310, 410, 510, 610, 710]"

section \<open>Loops as lists\<close>

lemma forPush_eq: "forPush bound body i = map body [i..<nat \<lceil>bound\<rceil>]"
proof (induction bound body i rule: forPush.induct)
  case (1 bound body i)
  show ?case
  proof (cases "real i < bound")
    case True
    then have "i < nat \<lceil>bound\<rceil>" by linarith
    with True 1 show ?thesis by (subst forPush.simps) (simp add: upt_conv_Cons)
  next
    case False
    then have "\<not> i < nat \<lceil>bound\<rceil>" by linarith
    with False show ?thesis by (subst forPush.simps) simp
  qed
qed

lemma fst_forPush:
  "map fst (forPush d (\<lambda>i. (s + real i, f i)) 0) = map (\<lambda>i. s + real i) [0..<nat \<lceil>d\<rceil>]"
  by (simp add: forPush_eq comp_def)

lemma set_forPush: "set (forPush d body 0) = body ` {0..<nat \<lceil>d\<rceil>}"
  by (simp add: forPush_eq)

lemmas dur_defs = pDuration_def prSegment_def qrsDuration_def stSegment_def tDuration_def
  returnDuration_def qrsStart_def stStart_def tStart_def orDefault_def

lemmas beat_defs = genNormalBeat_def pWave_def prPoints_def qrsPoints_def stPoints_def tWave_def
  returnPoints_def dur_defs

lemma width_simps: "PX_PER_SEC = 125" "STRIP_WIDTH = 750"
  by (simp_all add: STRIP_WIDTH_def PX_PER_SEC_def SMALL_BOX_def STRIP_SECONDS_def)

lemma upt8: "[0..<8] = [0, 1, 2, 3, 4, 5, 6, 7]"
  by (simp add: upt_conv_Cons)

lemma upt10: "[0..<10] = [0, 1, 2, 3, 4, 5, 6, 7, 8, 9]"
  by (simp add: upt_conv_Cons)

section \<open>Runs of time-positions\<close>

lemma stepsAtMostOne_append:
  "stepsAtMostOne xs \<Longrightarrow> stepsAtMostOne ys
     \<Longrightarrow> (xs \<noteq> [] \<Longrightarrow> ys \<noteq> [] \<Longrightarrow> hd ys - last xs \<le> 1)
     \<Longrightarrow> stepsAtMostOne (xs @ ys)"
proof (induction xs rule: stepsAtMostOne.induct)
  case 1
  then show ?case by simp
next
  case (2 x)
  then show ?case by (cases ys) simp_all
next
  case (3 x y ts)
  then show ?case by simp
qed

lemma stepsAtMostOne_ramp: "stepsAtMostOne (map (\<lambda>i. s + real i) [k..<n])"
proof (induction "n - k" arbitrary: k)
  case 0
  then show ?case by simp
next
  case (Suc m)
  then have kn: "k < n" by simp
  show ?case
  proof (cases "Suc k < n")
    case True
    have "stepsAtMostOne (map (\<lambda>i. s + real i) [Suc k..<n])"
      using Suc by simp
    then show ?thesis using kn True by (simp add: upt_conv_Cons)
  next
    case False
    then show ?thesis using kn by (simp add: upt_conv_Cons)
  qed
qed

lemma sorted_ramp: "sorted_wrt (<) (map (\<lambda>i. s + real i) [k..<n])"
  by (simp add: sorted_wrt_map sorted_wrt_iff_nth_less)

lemma covers_ramp:
  assumes "0 \<le> d"
  shows "covers s (s + d) (map (\<lambda>i. s + real i) [0..<nat \<lceil>d\<rceil>])"
proof (cases "d = 0")
  case True
  then show ?thesis by (simp add: covers_def)
next
  case False
  with assms have pos: "0 < d" by simp
  then have n: "0 < nat \<lceil>d\<rceil>" by linarith
  define ts where "ts = map (\<lambda>i. s + real i) [0..<nat \<lceil>d\<rceil>]"
  have ne: "ts \<noteq> []"
    using n by (simp add: ts_def)
  have h: "hd ts = s"
    using n by (simp add: ts_def hd_map)
  have l: "last ts = s + real (nat \<lceil>d\<rceil> - 1)"
    using n by (simp add: ts_def last_map)
  have b: "real (nat \<lceil>d\<rceil> - 1) < d" "d - 1 \<le> real (nat \<lceil>d\<rceil> - 1)"
    using pos by linarith+
  have l1: "s + d - 1 \<le> last ts" and l2: "last ts < s + d"
    unfolding l using b by linarith+
  have s1: "sorted_wrt (<) ts" and s2: "stepsAtMostOne ts"
    unfolding ts_def by (rule sorted_ramp, rule stepsAtMostOne_ramp)
  show ?thesis
    unfolding covers_def ts_def [symmetric] using ne h l1 l2 s1 s2 by presburger
qed

lemma strict_le_last: "sorted_wrt (<) xs \<Longrightarrow> u \<in> set xs \<Longrightarrow> u \<le> last (xs::real list)"
proof (induction xs)
  case Nil
  then show ?case by simp
next
  case (Cons x xs)
  show ?case
  proof (cases "xs = []")
    case True
    with Cons.prems show ?thesis by simp
  next
    case False
    then have l: "last xs \<in> set xs" by simp
    from Cons.prems have a: "\<forall>y \<in> set xs. x < y" and b: "sorted_wrt (<) xs"
      by simp_all
    from Cons.prems(2) have "u = x \<or> u \<in> set xs" by simp
    then have "u \<le> last xs"
    proof
      assume "u = x"
      with a l show ?thesis by force
    next
      assume "u \<in> set xs"
      with Cons.IH b show ?thesis by simp
    qed
    with False show ?thesis by simp
  qed
qed

lemma strict_hd_le: "sorted_wrt (<) xs \<Longrightarrow> u \<in> set xs \<Longrightarrow> hd xs \<le> (u::real)"
  by (cases xs) auto

lemma covers_append:
  assumes "covers a b xs" "covers b c ys"
  shows "covers a c (xs @ ys)"
proof (cases "xs = []")
  case True
  with assms show ?thesis by (simp add: covers_def)
next
  case xs: False
  show ?thesis
  proof (cases "ys = []")
    case True
    with assms xs show ?thesis by (simp add: covers_def)
  next
    case ys: False
    from assms xs ys have x: "hd xs = a" "sorted_wrt (<) xs" "stepsAtMostOne xs" "b - 1 \<le> last xs" "last xs < b"
      and y: "hd ys = b" "sorted_wrt (<) ys" "stepsAtMostOne ys" "c - 1 \<le> last ys" "last ys < c"
      by (simp_all add: covers_def)
    have "u < v" if "u \<in> set xs" "v \<in> set ys" for u v
      using strict_le_last [OF x(2) that(1)] strict_hd_le [OF y(2) that(2)] x(5) y(1) by linarith
    then have "sorted_wrt (<) (xs @ ys)"
      using x(2) y(2) by (simp add: sorted_wrt_append)
    moreover have "stepsAtMostOne (xs @ ys)"
      using x y by (intro stepsAtMostOne_append) simp_all
    ultimately show ?thesis
      using x y xs ys by (simp add: covers_def)
  qed
qed

lemma covers_forPush:
  "0 \<le> d \<Longrightarrow> covers s (s + d) (map fst (forPush d (\<lambda>i. (s + real i, f i)) 0))"
  by (simp only: fst_forPush covers_ramp)

text \<open>
  With a positive sampling density and a QRS duration that is not negative, the six
  segments follow one another: each fills its own window, and the next starts where the
  last one ends.
\<close>

lemma covers_beat:
  assumes px: "0 < pxPerSec" and q: "0 \<le> orDefault 0.08 (qrs options)"
  shows "covers x0 (x0 + beatSpan options pxPerSec) (beatTimes x0 pxPerSec options)"
proof -
  let ?c1 = "x0 + pDuration pxPerSec"
  let ?c2 = "qrsStart x0 pxPerSec options"
  let ?c3 = "stStart x0 pxPerSec options"
  let ?c4 = "tStart x0 pxPerSec options"
  let ?c5 = "?c4 + tDuration pxPerSec"
  have d: "0 \<le> pDuration pxPerSec" "0 \<le> prSegment options pxPerSec"
    "0 \<le> qrsDuration options pxPerSec" "0 \<le> stSegment pxPerSec"
    "0 \<le> tDuration pxPerSec" "0 \<le> returnDuration pxPerSec"
    using px q
    by (simp_all add: pDuration_def prSegment_def qrsDuration_def stSegment_def
        tDuration_def returnDuration_def)
  have 1: "covers x0 ?c1 (map fst (pWave x0 pxPerSec options))"
    unfolding pWave_def by (rule covers_forPush [OF d(1)])
  have 2: "covers ?c1 ?c2 (map fst (prPoints x0 pxPerSec options))"
    unfolding prPoints_def qrsStart_def by (rule covers_forPush [OF d(2)])
  have 3: "covers ?c2 ?c3 (map fst (qrsPoints ?c2 pxPerSec options))"
    unfolding qrsPoints_def stStart_def by (rule covers_forPush [OF d(3)])
  have 4: "covers ?c3 ?c4 (map fst (stPoints ?c3 pxPerSec options))"
    unfolding stPoints_def tStart_def by (rule covers_forPush [OF d(4)])
  have 5: "covers ?c4 ?c5 (map fst (tWave ?c4 pxPerSec options))"
    unfolding tWave_def by (rule covers_forPush [OF d(5)])
  have 6: "covers ?c5 (?c5 + returnDuration pxPerSec) (map fst (returnPoints ?c4 pxPerSec))"
    unfolding returnPoints_def by (rule covers_forPush [OF d(6)])
  have e: "?c5 + returnDuration pxPerSec = x0 + beatSpan options pxPerSec"
    by (simp add: beatSpan_def tStart_def stStart_def qrsStart_def)
  have "covers x0 (?c5 + returnDuration pxPerSec) (beatTimes x0 pxPerSec options)"
    unfolding beatTimes_def genNormalBeat_def map_append
    by (intro covers_append [OF 1] covers_append [OF 2] covers_append [OF 3]
        covers_append [OF 4] covers_append [OF 5] 6)
  then show ?thesis by (simp only: e)
qed

section \<open>Cropping a strip\<close>

text \<open>
  Claim C2, as stated, fails: cropping translates by the start of the window, so the first
  retained sample lands on 0 only when it sits on the start itself. The one sample at 5,
  cropped to the window from 3 to 10, is retained at 2.
\<close>

theorem cropPoints_first_not_zero:
  "(3::real) \<le> 10 \<and> cropPoints [(5, 90)] 3 10 = [(2, 90)]
     \<and> fst (hd (cropPoints [(5, 90)] 3 10)) \<noteq> 0"
  by (simp add: cropPoints_def)

text \<open>
  Claim C2, amended: \<^verbatim>\<open>cropPoints\<close> retains exactly the samples whose time-position
  lies between the start and the end of the window (both included), in their order, each
  moved back by the start, the amplitude unchanged; so a sample is returned at 0 exactly
  when it sat on the start, and no returned time-position is negative or beyond the
  length of the window.
\<close>

theorem cropPoints_window:
  "map (\<lambda>(x, y). (x + start, y)) (cropPoints points start endv)
     = filter (\<lambda>(x, y). start \<le> x \<and> x \<le> endv) points
   \<and> (\<forall>p \<in> set (cropPoints points start endv). 0 \<le> fst p \<and> fst p \<le> endv - start)"
  by (induction points) (auto simp: cropPoints_def)

text \<open>The amended claim C2 on four samples, two of them inside the window from 3 to 10.\<close>

theorem cropPoints_window_witness:
  "cropPoints [(1, 80), (3, 85), (5, 90), (11, 70)] 3 10 = [(0, 85), (2, 90)]
   \<and> map (\<lambda>(x, y). (x + 3, y)) (cropPoints [(1, 80), (3, 85), (5, 90), (11, 70)] 3 10)
     = [(3, 85), (5, 90)]
   \<and> list_all (\<lambda>p. 0 \<le> fst p \<and> fst p \<le> 10 - 3)
       (cropPoints [(1, 80), (3, 85), (5, 90), (11, 70)] 3 10)"
  using cropPoints_window [of 3 "[(1, 80), (3, 85), (5, 90), (11, 70)]" 10]
  by (simp add: cropPoints_def)

section \<open>The time-positions of a beat\<close>

text \<open>
  Claim C3, as stated, fails for a negative QRS duration: the QRS loop does not run, but
  the cursor still moves by the negative duration, so the ST segment starts before the
  samples already written. At density 125 and a QRS of -1 s the time-positions are not
  in non-decreasing order.
\<close>

theorem genNormalBeat_negative_qrs_not_sorted:
  "(0::real) < 125 \<and> \<not> sorted (beatTimes 0 125 (noOptions\<lparr>qrs := Some (- 1)\<rparr>))"
  by (simp add: beatTimes_def beat_defs noOptions_def forPush_eq upt_conv_Cons)

text \<open>
  Claim C3, amended: for every start offset and every positive sampling density the beat
  is not empty and its time-positions start exactly at the start offset, whatever the
  options; when, besides, the QRS duration is not negative, the time-positions are
  non-decreasing, no two successive ones are more than one pixel apart (no gap between
  the six segments), and they fill the window of the beat: each lies from the start offset
  up to, not including, the start offset plus the sum of the six durations times the
  density, and the last one is at most one pixel before that end.
\<close>

theorem genNormalBeat_times:
  "(0 < pxPerSec \<longrightarrow>
      beatTimes x0 pxPerSec options \<noteq> [] \<and> hd (beatTimes x0 pxPerSec options) = x0)
   \<and> (0 < pxPerSec \<and> 0 \<le> orDefault 0.08 (qrs options) \<longrightarrow>
      sorted (beatTimes x0 pxPerSec options)
      \<and> stepsAtMostOne (beatTimes x0 pxPerSec options)
      \<and> (\<forall>t \<in> set (beatTimes x0 pxPerSec options).
            x0 \<le> t \<and> t < x0 + beatSpan options pxPerSec)
      \<and> x0 + beatSpan options pxPerSec - 1 \<le> last (beatTimes x0 pxPerSec options))"
proof -
  let ?ts = "beatTimes x0 pxPerSec options"
  have a: "?ts \<noteq> [] \<and> hd ?ts = x0" if px: "0 < pxPerSec"
  proof -
    from px have "0 < pDuration pxPerSec" by (simp add: pDuration_def)
    then have n: "0 < nat \<lceil>pDuration pxPerSec\<rceil>" by linarith
    have p: "map fst (pWave x0 pxPerSec options) = map (\<lambda>i. x0 + real i) [0..<nat \<lceil>pDuration pxPerSec\<rceil>]"
      unfolding pWave_def by (rule fst_forPush)
    have ne: "map fst (pWave x0 pxPerSec options) \<noteq> []"
      unfolding p using n by simp
    have "hd (map fst (pWave x0 pxPerSec options)) = x0"
      unfolding p using n by (simp add: hd_map)
    with ne show ?thesis
      by (simp add: beatTimes_def genNormalBeat_def)
  qed
  have b: "sorted ?ts \<and> stepsAtMostOne ?ts
      \<and> (\<forall>t \<in> set ?ts. x0 \<le> t \<and> t < x0 + beatSpan options pxPerSec)
      \<and> x0 + beatSpan options pxPerSec - 1 \<le> last ?ts"
    if h: "0 < pxPerSec \<and> 0 \<le> orDefault 0.08 (qrs options)"
  proof -
    from h have px: "0 < pxPerSec" and q: "0 \<le> orDefault 0.08 (qrs options)" by simp_all
    from a [OF px] have ne: "?ts \<noteq> []" by simp
    from covers_beat [OF px q, of x0] ne
    have c: "hd ?ts = x0" "sorted_wrt (<) ?ts" "stepsAtMostOne ?ts"
      "x0 + beatSpan options pxPerSec - 1 \<le> last ?ts" "last ?ts < x0 + beatSpan options pxPerSec"
      by (simp_all add: covers_def)
    have s: "sorted ?ts"
      using c(2) by (rule strict_sorted_imp_sorted)
    have "x0 \<le> t \<and> t < x0 + beatSpan options pxPerSec" if "t \<in> set ?ts" for t
      using strict_le_last [OF c(2) that] strict_hd_le [OF c(2) that] c(1) c(5) by linarith
    with c s show ?thesis by blast
  qed
  from a b show ?thesis by blast
qed

text \<open>
  The amended claim C3 on the default beat at 125 pixels per second, starting at 10: its
  six durations add up to 65 pixels.
\<close>

theorem genNormalBeat_times_witness:
  "(0::real) < 125 \<and> 0 \<le> orDefault 0.08 (qrs noOptions)
    \<and> beatSpan noOptions 125 = 65
    \<and> beatTimes 10 125 noOptions \<noteq> []
    \<and> hd (beatTimes 10 125 noOptions) = 10
    \<and> sorted (beatTimes 10 125 noOptions)
    \<and> stepsAtMostOne (beatTimes 10 125 noOptions)
    \<and> list_all (\<lambda>t. 10 \<le> t \<and> t < 10 + 65) (beatTimes 10 125 noOptions)
    \<and> 10 + 65 - 1 \<le> last (beatTimes 10 125 noOptions)"
proof -
  have h: "(0::real) < 125" "0 \<le> orDefault 0.08 (qrs noOptions)"
    by (simp_all add: noOptions_def orDefault_def)
  have b: "beatSpan noOptions 125 = 65"
    by (simp add: beatSpan_def dur_defs noOptions_def)
  show ?thesis
    using genNormalBeat_times [of 125 10 noOptions] h unfolding b by (simp add: list_all_iff)
qed

section \<open>Defaults and degenerate durations\<close>





section \<open>Unrolling the tiling loop\<close>

text \<open>
  With a positive step the tiling loop ends: it appends one beat for each cursor position
  below \<open>STRIP_WIDTH - 10\<close>, in order.
\<close>

lemma beatLoop_unroll:
  assumes "0 < step"
  shows "beatLoop beat step cursor beatIndex points =
    Some (points @ concat (map (\<lambda>j. beat (cursor + real j * step) (beatIndex + j))
                            [0..<nat \<lceil>(STRIP_WIDTH - 10 - cursor) / step\<rceil>]))"
proof (induction "nat \<lceil>(STRIP_WIDTH - 10 - cursor) / step\<rceil>" arbitrary: cursor beatIndex points)
  case 0
  then have "(STRIP_WIDTH - 10 - cursor) / step \<le> 0" by linarith
  with assms have "\<not> cursor < STRIP_WIDTH - 10"
    by (simp add: divide_le_0_iff)
  with 0 show ?case
    by (subst beatLoop.simps) simp
next
  case (Suc n)
  let ?m = "nat \<lceil>(STRIP_WIDTH - 10 - cursor) / step\<rceil>"
  from Suc(2) have "0 < (STRIP_WIDTH - 10 - cursor) / step" by linarith
  with assms have lt: "cursor < STRIP_WIDTH - 10"
    by (simp add: zero_less_divide_iff)
  have "(STRIP_WIDTH - 10 - (cursor + step)) / step = (STRIP_WIDTH - 10 - cursor) / step - 1"
    using assms by (simp add: field_simps)
  then have n: "n = nat \<lceil>(STRIP_WIDTH - 10 - (cursor + step)) / step\<rceil>"
    using Suc(2) by linarith
  have m: "[0..<?m] = 0 # map Suc [0..<n]"
    using Suc(2) [symmetric] by (simp add: upt_conv_Cons map_Suc_upt)
  have "beatLoop beat step cursor beatIndex points
          = beatLoop beat step (cursor + step) (beatIndex + 1) (points @ beat cursor beatIndex)"
    using lt by (subst beatLoop.simps) simp
  also have "\<dots> = Some ((points @ beat cursor beatIndex)
       @ concat (map (\<lambda>j. beat (cursor + step + real j * step) (beatIndex + 1 + j)) [0..<n]))"
    using Suc(1) [OF n] n by simp
  also have "\<dots> = Some (points @ concat (map (\<lambda>j. beat (cursor + real j * step) (beatIndex + j)) [0..<?m]))"
    unfolding m by (simp add: comp_def algebra_simps)
  finally show ?case .
qed

lemma beatLoop_100:
  assumes "step = 100"
  shows "beatLoop beat step 10 0 [] =
     Some (concat (map (\<lambda>j. beat (10 + real j * 100) j) [0, 1, 2, 3, 4, 5, 6, 7]))"
proof -
  have n: "nat \<lceil>(STRIP_WIDTH - 10 - 10) / 100\<rceil> = 8"
    by (simp add: width_simps)
  show ?thesis
    using beatLoop_unroll [of 100 beat 10 0 "[]"]
    unfolding assms n upt8 by simp
qed

lemma tiled_100:
  assumes "step = 100"
  shows "beatLoop (\<lambda>cursor beatIndex. beat cursor) step 10 0 [] = Some (concat (map beat starts100))"
  by (simp add: beatLoop_100 [OF assms] starts100_def)

lemma sinus75: "genSinusStrip 75 options =
   Some (concat (map (\<lambda>c. genNormalBeat c PX_PER_SEC options) starts100))"
proof -
  have "genSinusStrip 75 options =
      beatLoop (\<lambda>cursor beatIndex. genNormalBeat cursor PX_PER_SEC options) (60 / 75 * PX_PER_SEC) 10 0 []"
    by (simp add: genSinusStrip_def)
  also have "\<dots> = Some (concat (map (\<lambda>c. genNormalBeat c PX_PER_SEC options) starts100))"
    by (rule tiled_100) (simp add: width_simps)
  finally show ?thesis .
qed

lemma strip_100:
  "returned (beatLoop (\<lambda>cursor beatIndex. beat cursor) (0.8 * PX_PER_SEC) 10 0 [])
     = Some (Inr (concat (map beat starts100)))"
proof -
  have "beatLoop (\<lambda>cursor beatIndex. beat cursor) (0.8 * PX_PER_SEC) 10 0 []
      = Some (concat (map beat starts100))"
    by (rule tiled_100) (simp add: width_simps)
  then show ?thesis by (simp only: returned_def option.map)
qed

lemma sinus_strip:
  "buildStrip ''sinus'' draws
     = Some (Inr (concat (map (\<lambda>c. genNormalBeat c PX_PER_SEC noOptions) starts100)))"
  by (simp add: buildStrip_def sinus75 returned_def)

lemma firstdeg_strip:
  "buildStrip ''firstdeg'' draws
     = Some (Inr (concat (map (\<lambda>c. genNormalBeat c PX_PER_SEC (noOptions\<lparr>pr := Some 0.26\<rparr>)) starts100)))"
proof -
  have "buildStrip ''firstdeg'' draws = returned (beatLoop
          (\<lambda>cursor beatIndex. genNormalBeat cursor PX_PER_SEC (noOptions\<lparr>pr := Some 0.26\<rparr>))
          (0.8 * PX_PER_SEC) 10 0 [])"
    by (simp add: buildStrip_def)
  also have "\<dots> = Some (Inr (concat (map (\<lambda>c. genNormalBeat c PX_PER_SEC (noOptions\<lparr>pr := Some 0.26\<rparr>)) starts100)))"
    by (rule strip_100)
  finally show ?thesis .
qed

lemma stemi_strip:
  "buildStrip ''stemi_inferior'' draws
     = Some (Inr (concat (map (\<lambda>c. genNormalBeat c PX_PER_SEC (noOptions\<lparr>stElevation := Some (- 6)\<rparr>)) starts100)))"
proof -
  have "buildStrip ''stemi_inferior'' draws = returned (beatLoop
          (\<lambda>cursor beatIndex. genNormalBeat cursor PX_PER_SEC (noOptions\<lparr>stElevation := Some (- 6)\<rparr>))
          (0.8 * PX_PER_SEC) 10 0 [])"
    by (simp add: buildStrip_def)
  also have "\<dots> = Some (Inr (concat (map (\<lambda>c. genNormalBeat c PX_PER_SEC (noOptions\<lparr>stElevation := Some (- 6)\<rparr>)) starts100)))"
    by (rule strip_100)
  finally show ?thesis .
qed

section \<open>The dispatch\<close>

text \<open>
  Claim C9: for every identifier that is none of the eleven recognised kinds,
  \<^verbatim>\<open>buildStrip\<close> returns what \<^verbatim>\<open>genSinusStrip(75)\<close> returns, which is its result
  for \<^verbatim>\<open>"sinus"\<close>, and it does return: the loop ends and nothing is thrown.
\<close>

theorem buildStrip_fallback:
  assumes "kind \<notin> {''sinus'', ''sinus_brady'', ''sinus_tachy'', ''aflutter'', ''afib'', ''sinus_pac'',
                    ''psvt'', ''junctional'', ''firstdeg'', ''stemi_inferior'', ''nstemi''}"
  shows "buildStrip kind draws = returned (genSinusStrip 75 noOptions)
    \<and> buildStrip kind draws = buildStrip ''sinus'' draws
    \<and> (\<exists>points. buildStrip kind draws = Some (Inr points))"
  using assms by (simp add: buildStrip_def sinus75 returned_def)

text \<open>Claim C9 at an identifier outside the enumeration.\<close>

theorem buildStrip_fallback_witness:
  "buildStrip ''vtach'' (\<lambda>n. 0) = returned (genSinusStrip 75 noOptions)
    \<and> buildStrip ''vtach'' (\<lambda>n. 0) = buildStrip ''sinus'' (\<lambda>n. 0)
    \<and> (\<exists>points. buildStrip ''vtach'' (\<lambda>n. 0) = Some (Inr points))"
proof -
  have "''vtach'' \<notin> {''sinus'', ''sinus_brady'', ''sinus_tachy'', ''aflutter'', ''afib'', ''sinus_pac'',
                    ''psvt'', ''junctional'', ''firstdeg'', ''stemi_inferior'', ''nstemi''}"
    by simp
  from buildStrip_fallback [OF this] show ?thesis .
qed

section \<open>First-degree block: the PR interval\<close>

text \<open>
  Claim C5, as stated, fails: the strip for \<^verbatim>\<open>"firstdeg"\<close> is eight beats sampled with
  \<^verbatim>\<open>pr: 0.26\<close>, and the sampler spends 0.08 s of that on the P wave. In the first beat
  the PR segment starts at pixel 20, where the P wave ends, and the QRS complex at pixel
  42.5: at 125 pixels per second the PR segment lasts 0.18 s, less than 0.20 s.
\<close>

theorem firstdeg_pr_segment_short:
  "buildStrip ''firstdeg'' (\<lambda>n. 0)
     = Some (Inr (concat (map (\<lambda>c. genNormalBeat c PX_PER_SEC (noOptions\<lparr>pr := Some 0.26\<rparr>)) starts100)))
   \<and> hd starts100 = 10
   \<and> fst (hd (prPoints 10 PX_PER_SEC (noOptions\<lparr>pr := Some 0.26\<rparr>))) = 20
   \<and> fst (hd (qrsPoints (qrsStart 10 PX_PER_SEC (noOptions\<lparr>pr := Some 0.26\<rparr>)) PX_PER_SEC
                 (noOptions\<lparr>pr := Some 0.26\<rparr>))) = 42.5
   \<and> (42.5 - 20) / PX_PER_SEC = 0.18
   \<and> \<not> 0.20 \<le> (42.5 - 20) / PX_PER_SEC"
proof -
  have 1: "fst (hd (prPoints 10 PX_PER_SEC (noOptions\<lparr>pr := Some 0.26\<rparr>))) = 20"
    by (simp add: prPoints_def dur_defs width_simps forPush_eq upt_conv_Cons)
  have 2: "fst (hd (qrsPoints (qrsStart 10 PX_PER_SEC (noOptions\<lparr>pr := Some 0.26\<rparr>)) PX_PER_SEC
                 (noOptions\<lparr>pr := Some 0.26\<rparr>))) = 42.5"
    by (simp add: qrsPoints_def dur_defs noOptions_def width_simps forPush_eq upt_conv_Cons)
  have 3: "(42.5 - 20) / PX_PER_SEC = 0.18" "\<not> 0.20 \<le> (42.5 - 20) / PX_PER_SEC"
    by (simp_all add: width_simps)
  show ?thesis
    using firstdeg_strip [of "\<lambda>n. 0"] 1 2 3 by (simp add: starts100_def)
qed

text \<open>
  Claim C5, amended: every beat of the strip for \<^verbatim>\<open>"firstdeg"\<close> has a PR interval,
  measured from the start of the P wave to the start of the QRS complex, of 0.26 s, which
  is at least 0.20 s; its PR segment, from the end of the P wave to the start of the QRS
  complex, lasts 0.18 s. The beat that starts at any position \<open>c\<close> is its six segments
  in order: its sample 0 is the first of the 10 samples of the P wave, at \<open>c\<close>; its
  samples 10 to 32 are the PR segment, on the baseline from \<open>c + 10\<close> on, where the P
  wave ends; and its sample 33 is the first QRS sample, at \<open>c + 32.5\<close>.
\<close>

theorem firstdeg_pr_interval:
  "buildStrip ''firstdeg'' draws
     = Some (Inr (concat (map (\<lambda>c. genNormalBeat c PX_PER_SEC (noOptions\<lparr>pr := Some 0.26\<rparr>)) starts100)))
   \<and> genNormalBeat c PX_PER_SEC (noOptions\<lparr>pr := Some 0.26\<rparr>)
     = pWave c PX_PER_SEC (noOptions\<lparr>pr := Some 0.26\<rparr>)
       @ prPoints c PX_PER_SEC (noOptions\<lparr>pr := Some 0.26\<rparr>)
       @ qrsPoints (qrsStart c PX_PER_SEC (noOptions\<lparr>pr := Some 0.26\<rparr>)) PX_PER_SEC (noOptions\<lparr>pr := Some 0.26\<rparr>)
       @ stPoints (stStart c PX_PER_SEC (noOptions\<lparr>pr := Some 0.26\<rparr>)) PX_PER_SEC (noOptions\<lparr>pr := Some 0.26\<rparr>)
       @ tWave (tStart c PX_PER_SEC (noOptions\<lparr>pr := Some 0.26\<rparr>)) PX_PER_SEC (noOptions\<lparr>pr := Some 0.26\<rparr>)
       @ returnPoints (tStart c PX_PER_SEC (noOptions\<lparr>pr := Some 0.26\<rparr>)) PX_PER_SEC
   \<and> length (pWave c PX_PER_SEC (noOptions\<lparr>pr := Some 0.26\<rparr>)) = 10
   \<and> length (prPoints c PX_PER_SEC (noOptions\<lparr>pr := Some 0.26\<rparr>)) = 23
   \<and> genNormalBeat c PX_PER_SEC (noOptions\<lparr>pr := Some 0.26\<rparr>) ! 0 = (c, baseline)
   \<and> take 23 (drop 10 (genNormalBeat c PX_PER_SEC (noOptions\<lparr>pr := Some 0.26\<rparr>)))
       = map (\<lambda>i. (c + pDuration PX_PER_SEC + real i, baseline)) [0..<23]
   \<and> genNormalBeat c PX_PER_SEC (noOptions\<lparr>pr := Some 0.26\<rparr>) ! 33
       = (qrsStart c PX_PER_SEC (noOptions\<lparr>pr := Some 0.26\<rparr>), 96.6)
   \<and> pDuration PX_PER_SEC = 10
   \<and> qrsStart c PX_PER_SEC (noOptions\<lparr>pr := Some 0.26\<rparr>) = c + 32.5
   \<and> (qrsStart c PX_PER_SEC (noOptions\<lparr>pr := Some 0.26\<rparr>) - c) / PX_PER_SEC = 0.26
   \<and> 0.20 \<le> (qrsStart c PX_PER_SEC (noOptions\<lparr>pr := Some 0.26\<rparr>) - c) / PX_PER_SEC
   \<and> (qrsStart c PX_PER_SEC (noOptions\<lparr>pr := Some 0.26\<rparr>) - (c + pDuration PX_PER_SEC)) / PX_PER_SEC = 0.18"
proof -
  let ?o = "noOptions\<lparr>pr := Some 0.26\<rparr>"
  let ?b = "genNormalBeat c PX_PER_SEC ?o"
  have d: "?b = pWave c PX_PER_SEC ?o @ prPoints c PX_PER_SEC ?o
       @ qrsPoints (qrsStart c PX_PER_SEC ?o) PX_PER_SEC ?o
       @ stPoints (stStart c PX_PER_SEC ?o) PX_PER_SEC ?o
       @ tWave (tStart c PX_PER_SEC ?o) PX_PER_SEC ?o
       @ returnPoints (tStart c PX_PER_SEC ?o) PX_PER_SEC"
    by (simp add: genNormalBeat_def)
  have lp: "length (pWave c PX_PER_SEC ?o) = 10"
    by (simp add: pWave_def forPush_eq dur_defs width_simps)
  have pr23: "prPoints c PX_PER_SEC ?o = map (\<lambda>i. (c + pDuration PX_PER_SEC + real i, baseline)) [0..<23]"
    by (simp add: prPoints_def forPush_eq dur_defs width_simps)
  then have lpr: "length (prPoints c PX_PER_SEC ?o) = 23" by simp
  have p0: "pWave c PX_PER_SEC ?o ! 0 = (c, baseline)"
    by (simp add: pWave_def forPush_eq dur_defs width_simps noOptions_def)
  have q0: "qrsPoints (qrsStart c PX_PER_SEC ?o) PX_PER_SEC ?o ! 0
      = (qrsStart c PX_PER_SEC ?o, 96.6)"
    by (simp add: qrsPoints_def forPush_eq qrsDuration_def orDefault_def noOptions_def width_simps
        qrsShape_def baseline_def)
  have b0: "?b ! 0 = (c, baseline)"
    unfolding d using lp p0 by (simp add: nth_append)
  have b10: "take 23 (drop 10 ?b) = map (\<lambda>i. (c + pDuration PX_PER_SEC + real i, baseline)) [0..<23]"
    unfolding d using lp lpr pr23 by simp
  have lq: "length (qrsPoints (qrsStart c PX_PER_SEC ?o) PX_PER_SEC ?o) = 10"
    by (simp add: qrsPoints_def forPush_eq qrsDuration_def orDefault_def noOptions_def width_simps)
  have "?b ! 33 = ?b ! (length (pWave c PX_PER_SEC ?o) + (length (prPoints c PX_PER_SEC ?o) + 0))"
    by (simp only: lp lpr) simp
  also have "\<dots> = (qrsPoints (qrsStart c PX_PER_SEC ?o) PX_PER_SEC ?o
       @ stPoints (stStart c PX_PER_SEC ?o) PX_PER_SEC ?o
       @ tWave (tStart c PX_PER_SEC ?o) PX_PER_SEC ?o
       @ returnPoints (tStart c PX_PER_SEC ?o) PX_PER_SEC) ! 0"
    by (subst d) (simp only: nth_append_length_plus)
  also have "\<dots> = qrsPoints (qrsStart c PX_PER_SEC ?o) PX_PER_SEC ?o ! 0"
    using lq by (simp add: nth_append)
  finally have b33: "?b ! 33 = (qrsStart c PX_PER_SEC ?o, 96.6)"
    using q0 by simp
  have n: "pDuration PX_PER_SEC = 10" "qrsStart c PX_PER_SEC ?o = c + 32.5"
    "(qrsStart c PX_PER_SEC ?o - c) / PX_PER_SEC = 0.26"
    "(qrsStart c PX_PER_SEC ?o - (c + pDuration PX_PER_SEC)) / PX_PER_SEC = 0.18"
    by (simp_all add: dur_defs width_simps)
  have 5: "0.20 \<le> (qrsStart c PX_PER_SEC ?o - c) / PX_PER_SEC"
    by (simp only: n(3)) simp
  show ?thesis
    using firstdeg_strip [of draws] d lp lpr b0 b10 b33 n 5 by blast
qed

section \<open>Inferior STEMI: the ST segment\<close>

text \<open>
  Claim C4 at the strip for \<^verbatim>\<open>"stemi_inferior"\<close>: it is eight beats sampled with
  \<^verbatim>\<open>stElevation: -6\<close>, and in the beat starting at any position \<open>c\<close> the ten samples of
  the ST segment have the amplitude \<open>baseline - (-6) = 96\<close>. That is 6 units from the
  baseline 90, on the side of the larger y: the upright P wave and the R spike are drawn
  at smaller y than the baseline, so this ST segment is drawn below it.
\<close>

theorem stemi_st_segment_below_baseline:
  "buildStrip ''stemi_inferior'' draws
     = Some (Inr (concat (map (\<lambda>c. genNormalBeat c PX_PER_SEC (noOptions\<lparr>stElevation := Some (- 6)\<rparr>)) starts100)))
   \<and> stPoints (stStart c PX_PER_SEC (noOptions\<lparr>stElevation := Some (- 6)\<rparr>)) PX_PER_SEC
        (noOptions\<lparr>stElevation := Some (- 6)\<rparr>)
       = map (\<lambda>i. (c + 30 + real i, 96)) [0..<10]
   \<and> baseline < 96"
proof -
  let ?o = "noOptions\<lparr>stElevation := Some (- 6)\<rparr>"
  have "stPoints (stStart c PX_PER_SEC ?o) PX_PER_SEC ?o = map (\<lambda>i. (c + 30 + real i, 96)) [0..<10]"
    by (simp add: stPoints_def dur_defs noOptions_def width_simps forPush_eq baseline_def)
  then show ?thesis
    using stemi_strip [of draws] by (simp add: baseline_def)
qed

section \<open>Normal sinus rhythm: beats and the QRS peak\<close>

lemma qrs_default_points:
  "qrsPoints (qrsStart c PX_PER_SEC noOptions) PX_PER_SEC noOptions
     = [(c + 20, 96.6), (c + 21, 96.6), (c + 22, 63.6), (c + 23, 63.6), (c + 24, 63.6),
        (c + 25, 98.8), (c + 26, 98.8), (c + 27, 98.8), (c + 28, 98.8), (c + 29, 90)]"
  by (simp add: qrsPoints_def dur_defs noOptions_def width_simps forPush_eq upt10 qrsShape_def baseline_def)

lemma sin_scaled: "0 \<le> a \<Longrightarrow> \<bar>sin x * a\<bar> \<le> (a::real)"
proof -
  assume a: "0 \<le> a"
  have "\<bar>sin x * a\<bar> = \<bar>sin x\<bar> * a" using a by (simp add: abs_mult)
  also have "\<dots> \<le> 1 * a" using a by (intro mult_right_mono) simp_all
  finally show ?thesis by simp
qed

lemma default_beat_deflection:
  assumes "p \<in> set (genNormalBeat c PX_PER_SEC noOptions)"
  shows "\<bar>baseline - snd p\<bar> \<le> 1.2 * 22"
proof -
  let ?o = noOptions
  from assms consider
      (P) "p \<in> set (pWave c PX_PER_SEC ?o)"
    | (PR) "p \<in> set (prPoints c PX_PER_SEC ?o)"
    | (QRS) "p \<in> set (qrsPoints (qrsStart c PX_PER_SEC ?o) PX_PER_SEC ?o)"
    | (ST) "p \<in> set (stPoints (stStart c PX_PER_SEC ?o) PX_PER_SEC ?o)"
    | (T) "p \<in> set (tWave (tStart c PX_PER_SEC ?o) PX_PER_SEC ?o)"
    | (R) "p \<in> set (returnPoints (tStart c PX_PER_SEC ?o) PX_PER_SEC)"
    by (auto simp: genNormalBeat_def)
  then show ?thesis
  proof cases
    case P
    then obtain x where "snd p = baseline - sin x * (22 * 0.25)"
      by (auto simp: pWave_def set_forPush orDefault_def noOptions_def)
    moreover have "\<bar>sin x * (22 * 0.25)\<bar> \<le> 22 * 0.25"
      by (rule sin_scaled) simp
    ultimately show ?thesis by simp
  next
    case PR
    then show ?thesis by (auto simp: prPoints_def set_forPush)
  next
    case QRS
    then show ?thesis unfolding qrs_default_points by (auto simp: baseline_def)
  next
    case ST
    then show ?thesis by (auto simp: stPoints_def set_forPush orDefault_def noOptions_def)
  next
    case T
    then obtain x where "snd p = baseline - sin x * (22 * 0.4) * 1"
      by (auto simp: tWave_def set_forPush orDefault_def noOptions_def)
    moreover have "\<bar>sin x * (22 * 0.4)\<bar> \<le> 22 * 0.4"
      by (rule sin_scaled) simp
    ultimately show ?thesis by simp
  next
    case R
    then show ?thesis by (auto simp: returnPoints_def set_forPush)
  qed
qed

text \<open>
  Claim C6, as stated, fails in its second half: the QRS shape takes the factor 1.2 in its
  positive phase, so the spike stands 1.2 times the amplitude scale from the baseline. The
  first beat of the strip for \<^verbatim>\<open>"sinus"\<close> has the QRS sample (32, 63.6), which is 26.4
  from the baseline 90, and 26.4 is not within 5% of 22.
\<close>

theorem sinus_qrs_peak_exceeds_amp:
  "buildStrip ''sinus'' (\<lambda>n. 0)
     = Some (Inr (concat (map (\<lambda>c. genNormalBeat c PX_PER_SEC noOptions) starts100)))
   \<and> hd starts100 = 10
   \<and> (32, 63.6) \<in> set (qrsPoints (qrsStart 10 PX_PER_SEC noOptions) PX_PER_SEC noOptions)
   \<and> \<bar>baseline - 63.6\<bar> = 26.4
   \<and> \<not> \<bar>\<bar>baseline - 63.6\<bar> - 22\<bar> \<le> 0.05 * 22"
proof -
  have "(32, 63.6) \<in> set (qrsPoints (qrsStart 10 PX_PER_SEC noOptions) PX_PER_SEC noOptions)"
    unfolding qrs_default_points by simp
  then show ?thesis
    using sinus_strip [of "\<lambda>n. 0"] by (simp add: starts100_def baseline_def)
qed

text \<open>
  Claim C6, amended: the strip for \<^verbatim>\<open>"sinus"\<close> is exactly eight beats (between 6 and 8,
  and within one of the whole part of 6 s over 0.8 s), sampled with the default options at
  the cursor positions 10, 110, ..., 710; the beat
  starting at any position \<open>c\<close> has a QRS sample above the baseline (at smaller y) whose
  distance from the baseline is 1.2 times the amplitude scale 22, that is 26.4, and no
  sample of the beat is further from the baseline.
\<close>

theorem sinus_beats_and_qrs_peak:
  "buildStrip ''sinus'' draws
     = Some (Inr (concat (map (\<lambda>c. genNormalBeat c PX_PER_SEC noOptions) starts100)))
   \<and> length starts100 = 8 \<and> 6 \<le> length starts100 \<and> length starts100 \<le> 8
   \<and> \<bar>int (length starts100) - \<lfloor>STRIP_SECONDS / (60 / 75)\<rfloor>\<bar> \<le> 1
   \<and> (c + 22, baseline - 1.2 * 22) \<in> set (qrsPoints (qrsStart c PX_PER_SEC noOptions) PX_PER_SEC noOptions)
   \<and> set (qrsPoints (qrsStart c PX_PER_SEC noOptions) PX_PER_SEC noOptions)
        \<subseteq> set (genNormalBeat c PX_PER_SEC noOptions)
   \<and> (\<forall>p \<in> set (genNormalBeat c PX_PER_SEC noOptions). \<bar>baseline - snd p\<bar> \<le> 1.2 * 22)"
proof -
  have 1: "(c + 22, baseline - 1.2 * 22) \<in> set (qrsPoints (qrsStart c PX_PER_SEC noOptions) PX_PER_SEC noOptions)"
    unfolding qrs_default_points by (simp add: baseline_def)
  have 2: "set (qrsPoints (qrsStart c PX_PER_SEC noOptions) PX_PER_SEC noOptions)
        \<subseteq> set (genNormalBeat c PX_PER_SEC noOptions)"
    by (auto simp: genNormalBeat_def)
  have 3: "\<bar>int (length starts100) - \<lfloor>STRIP_SECONDS / (60 / 75)\<rfloor>\<bar> \<le> 1"
    by (simp add: starts100_def STRIP_SECONDS_def)
  show ?thesis
    using sinus_strip [of draws] 1 2 3 default_beat_deflection [of _ c]
    by (simp add: starts100_def)
qed

text \<open>The amended claim C6 at the first beat, which starts at 10: its R spike at (32, 63.6).\<close>

theorem sinus_beats_and_qrs_peak_witness:
  "length starts100 = 8
   \<and> (32, 63.6) \<in> set (genNormalBeat 10 PX_PER_SEC noOptions)
   \<and> \<bar>baseline - snd (32::real, 63.6::real)\<bar> \<le> 1.2 * 22"
proof -
  have "(32, 63.6) \<in> set (genNormalBeat 10 PX_PER_SEC noOptions)"
    using sinus_beats_and_qrs_peak [of "\<lambda>n. 0" 10] by (auto simp: baseline_def)
  then show ?thesis
    using sinus_beats_and_qrs_peak [of "\<lambda>n. 0" 10] by (simp add: baseline_def)
qed

section \<open>Writes into the array\<close>

lemma setY_Inr:
  assumes "0 \<le> index" "index < int (length points)"
  shows "\<exists>points'. setY points index y = Inr points' \<and> map fst points' = map fst points
           \<and> length points' = length points"
proof -
  have "nat index < length points" using assms by linarith
  then have "(map fst points)[nat index := fst (points ! nat index)] = map fst points"
    by (simp add: list_update_same_conv)
  then show ?thesis using assms by (simp add: setY_def map_update)
qed

lemma setY_nth:
  "setY points index y = Inr points' \<Longrightarrow> j \<noteq> nat index \<Longrightarrow> points' ! j = points ! j"
  by (auto simp: setY_def split: if_splits)

lemma setY_length: "setY points index y = Inr points' \<Longrightarrow> length points' = length points"
  by (auto simp: setY_def split: if_splits)

lemma length_of_fst:
  assumes "map fst points = map real [0..<n]"
  shows "length points = n"
proof -
  have "length (map fst points) = length (map real [0..<n])"
    by (simp only: assms)
  then show ?thesis by simp
qed

section \<open>Atrial flutter\<close>

text \<open>
  The clamped index of the flutter overlay is an element of the array as soon as the array
  is not empty and the start is not negative, so the inner loop returns and leaves the
  time-positions alone.
\<close>

lemma flutterSpike_ok:
  "0 \<le> start \<Longrightarrow> points \<noteq> []
     \<Longrightarrow> \<exists>points'. flutterSpike width start k points = Inr points'
           \<and> map fst points' = map fst points"
proof (induction width start k points rule: flutterSpike.induct)
  case (1 width start k points)
  show ?case
  proof (cases "real k < 0.08 * width")
    case False
    then show ?thesis by (subst flutterSpike.simps) simp
  next
    case True
    let ?i = "min (int (length points) - 1) \<lfloor>start + real k\<rfloor>"
    let ?y = "90 - (if real k < 0.02 * width then - 4 else if real k < 0.04 * width then 20 else - 6)"
    have "0 \<le> start + real k" using 1(2) by simp
    then have "0 \<le> \<lfloor>start + real k\<rfloor>" by linarith
    moreover have "0 < length points" using 1(3) by simp
    ultimately have "0 \<le> ?i" "?i < int (length points)" by linarith+
    from setY_Inr [OF this, of ?y] obtain p where
      p: "setY points ?i ?y = Inr p" "map fst p = map fst points" "length p = length points"
      by blast
    then have "p \<noteq> []" using 1(3) by auto
    from 1(1) [OF True p(1) 1(2) this] obtain q where
      "flutterSpike width start (Suc k) p = Inr q" "map fst q = map fst p"
      by blast
    with p True show ?thesis
      by (subst flutterSpike.simps) simp
  qed
qed

text \<open>An element whose index the inner loop does not compute keeps its value.\<close>

lemma flutterSpike_frame:
  "flutterSpike width start k points = Inr points'
     \<Longrightarrow> j \<notin> (\<lambda>k. nat (min (int (length points) - 1) \<lfloor>start + real k\<rfloor>)) ` {k..<nat \<lceil>0.08 * width\<rceil>}
     \<Longrightarrow> points' ! j = points ! j"
proof (induction width start k points rule: flutterSpike.induct)
  case (1 width start k points)
  show ?case
  proof (cases "real k < 0.08 * width")
    case False
    with 1(2) show ?thesis by (subst (asm) flutterSpike.simps) simp
  next
    case True
    let ?i = "min (int (length points) - 1) \<lfloor>start + real k\<rfloor>"
    let ?y = "90 - (if real k < 0.02 * width then - 4 else if real k < 0.04 * width then 20 else - 6)"
    from True have kn: "k < nat \<lceil>0.08 * width\<rceil>" by linarith
    from 1(2) True obtain p where p: "setY points ?i ?y = Inr p"
      and r: "flutterSpike width start (Suc k) p = Inr points'"
      by (subst (asm) flutterSpike.simps) (auto split: sum.splits)
    have l: "length p = length points" using p by (rule setY_length)
    have "{Suc k..<nat \<lceil>0.08 * width\<rceil>} \<subseteq> {k..<nat \<lceil>0.08 * width\<rceil>}" by auto
    with 1(3) have "j \<notin> (\<lambda>k. nat (min (int (length p) - 1) \<lfloor>start + real k\<rfloor>)) ` {Suc k..<nat \<lceil>0.08 * width\<rceil>}"
      unfolding l by blast
    from 1(1) [OF True p r this] have "points' ! j = p ! j" .
    moreover have "j \<noteq> nat ?i" using 1(3) kn by auto
    then have "p ! j = points ! j" using p by (rule setY_nth [rotated])
    ultimately show ?thesis by simp
  qed
qed

lemma fst_flutterWaves:
  "map fst (flutterWaves width ampv pixelsPerWave) = map real [0..<nat \<lceil>width\<rceil>]"
  by (simp add: flutterWaves_def forPush_eq comp_def)

lemma snd_flutterWaves:
  "i < nat \<lceil>width\<rceil> \<Longrightarrow> snd (flutterWaves width ampv pixelsPerWave ! i)
     = baseline - \<bar>jsRem (real i) pixelsPerWave / pixelsPerWave - 0.5\<bar> * 2 * ampv * 0.5"
  by (simp add: flutterWaves_def forPush_eq)

lemma jsRem_shift:
  assumes "0 < p"
  shows "jsRem (real (i + p)) (real p) = jsRem (real i) (real p)"
proof -
  have e: "real (i + p) / real p = real i / real p + 1"
    using assms by (simp add: field_simps)
  have "0 \<le> real i / real p" by simp
  then show ?thesis
    unfolding jsRem_def e by (simp add: algebra_simps)
qed

text \<open>
  At the rate 300 and a positive width the outer loop runs twice, from 0 and from four
  flutter waves (0.8 of the width), and then returns.
\<close>

lemma genAflutter_unroll:
  assumes "0 < width"
  shows "\<exists>p1 p2. flutterSpike width 0 0 (flutterWaves width ampv (width * (60 / 300))) = Inr p1
     \<and> flutterSpike width (width * (60 / 300) * 4) 0 p1 = Inr p2
     \<and> map fst p1 = map real [0..<nat \<lceil>width\<rceil>]
     \<and> map fst p2 = map real [0..<nat \<lceil>width\<rceil>]
     \<and> genAflutter width ampv 300 = Some (Inr p2)"
proof -
  let ?ppw = "width * (60 / 300)"
  let ?p0 = "flutterWaves width ampv ?ppw"
  have f0: "map fst ?p0 = map real [0..<nat \<lceil>width\<rceil>]"
    by (rule fst_flutterWaves)
  have "0 < nat \<lceil>width\<rceil>" using assms by linarith
  then have "map real [0..<nat \<lceil>width\<rceil>] \<noteq> []" by simp
  with f0 have ne0: "?p0 \<noteq> []" by (metis map_is_Nil_conv)
  from flutterSpike_ok [of 0 ?p0 width 0] ne0 obtain p1 where
    p1: "flutterSpike width 0 0 ?p0 = Inr p1" "map fst p1 = map fst ?p0"
    by auto
  then have ne1: "p1 \<noteq> []" using ne0 by (metis map_is_Nil_conv)
  have "0 \<le> ?ppw * 4" using assms by simp
  from flutterSpike_ok [OF this ne1, of width 0] obtain p2 where
    p2: "flutterSpike width (?ppw * 4) 0 p1 = Inr p2" "map fst p2 = map fst p1"
    by auto
  have s1: "?ppw * 4 < width" using assms by simp
  have s2: "\<not> ?ppw * 4 + ?ppw * 4 < width" using assms by simp
  have "flutterBeats width ?ppw (?ppw * 4 + ?ppw * 4) p2 = Some (Inr p2)"
    using s2 by (subst flutterBeats.simps) (simp only: if_False)
  then have "flutterBeats width ?ppw (?ppw * 4) p1 = Some (Inr p2)"
    using s1 p2(1) by (subst flutterBeats.simps) (simp only: if_True sum.case)
  then have "flutterBeats width ?ppw 0 ?p0 = Some (Inr p2)"
    using assms p1(1) by (subst flutterBeats.simps) (simp only: if_True sum.case add_0)
  then have "genAflutter width ampv 300 = Some (Inr p2)"
    by (simp add: genAflutter_def Let_def)
  with p1 p2 f0 show ?thesis by auto
qed

lemma genAflutter_ok:
  assumes "0 < w"
  shows "\<exists>points. genAflutter (real w) ampv 300 = Some (Inr points) \<and> map fst points = map real [0..<w]"
proof -
  from assms have "0 < real w" by simp
  from genAflutter_unroll [OF this, of ampv] show ?thesis by auto
qed

lemma set_spikeIndices:
  "set (spikeIndices width start len)
     = (\<lambda>k. nat (min (int len - 1) \<lfloor>start + real k\<rfloor>)) ` {0..<nat \<lceil>0.08 * width\<rceil>}"
  by (simp add: spikeIndices_def)

text \<open>At the width 750 the overlay writes the indices 0 to 59 and 600 to 659.\<close>

lemma flutterWindows_750: "set (flutterWindows 750) = {0..<60} \<union> {600..<660}"
proof -
  have a: "nat (min (int 750 - 1) \<lfloor>0 + real k\<rfloor>) = k" if "k < 60" for k
    using that by simp
  have b: "nat (min (int 750 - 1) \<lfloor>750 * (60 / 300) * 4 + real k\<rfloor>) = 600 + k" if "k < 60" for k
  proof -
    have "\<lfloor>750 * (60 / 300) * 4 + real k\<rfloor> = 600 + int k"
      by simp
    with that show ?thesis by simp
  qed
  have n: "nat \<lceil>0.08 * (750::real)\<rceil> = 60" by simp
  have "set (flutterWindows 750) = (\<lambda>k. k) ` {0..<60} \<union> (\<lambda>k. 600 + k) ` {0..<60}"
    unfolding flutterWindows_def set_append set_spikeIndices n
    using a b by (simp add: image_def)
  also have "(\<lambda>k. 600 + k) ` {0..<60} = {600..<(660::nat)}"
  proof (rule set_eqI)
    fix x :: nat
    show "x \<in> (\<lambda>k. 600 + k) ` {0..<60} \<longleftrightarrow> x \<in> {600..<660}"
    proof
      assume "x \<in> (\<lambda>k. 600 + k) ` {0..<60}"
      then show "x \<in> {600..<660}" by auto
    next
      assume "x \<in> {600..<660}"
      then have "x = 600 + (x - 600)" "x - 600 \<in> {0..<60}" by auto
      then show "x \<in> (\<lambda>k. 600 + k) ` {0..<60}" by (rule image_eqI)
    qed
  qed
  finally show ?thesis by simp
qed

text \<open>
  Claim C7: at a positive whole width \<open>w\<close> whose fifth,
  \<open>pixelsPerWave = w * (60 / 300)\<close>, is the whole number \<open>p\<close>, \<^verbatim>\<open>genAflutter\<close> returns
  \<open>w\<close> samples, and for every pair of indices \<open>i\<close> and \<open>i + p\<close> inside the strip that the
  overlay of conducted beats does not write, the two amplitudes are equal (in exact
  arithmetic there is no tolerance to allow for).
\<close>

theorem genAflutter_periodic:
  assumes "0 < w" and "real p = real w * (60 / 300)" and "i + p < w"
    and "i \<notin> set (flutterWindows (real w))" and "i + p \<notin> set (flutterWindows (real w))"
  shows "\<exists>points. genAflutter (real w) 18 300 = Some (Inr points) \<and> length points = w
           \<and> snd (points ! i) = snd (points ! (i + p))"
proof -
  let ?ppw = "real w * (60 / 300)"
  let ?p0 = "flutterWaves (real w) 18 ?ppw"
  from assms(1) have w: "0 < real w" by simp
  from genAflutter_unroll [OF w, of 18] obtain p1 p2 where
    s1: "flutterSpike (real w) 0 0 ?p0 = Inr p1"
    and s2: "flutterSpike (real w) (?ppw * 4) 0 p1 = Inr p2"
    and f1: "map fst p1 = map real [0..<nat \<lceil>real w\<rceil>]"
    and f2: "map fst p2 = map real [0..<nat \<lceil>real w\<rceil>]"
    and g: "genAflutter (real w) 18 300 = Some (Inr p2)"
    by blast
  have n: "nat \<lceil>real w\<rceil> = w" by simp
  have l0: "length ?p0 = w"
    using fst_flutterWaves [of "real w" 18 ?ppw] unfolding n by (rule length_of_fst)
  have l1: "length p1 = w" using f1 unfolding n by (rule length_of_fst)
  have l2: "length p2 = w" using f2 unfolding n by (rule length_of_fst)
  have keep: "p2 ! j = ?p0 ! j" if "j \<notin> set (flutterWindows (real w))" for j
  proof -
    from that have a: "j \<notin> (\<lambda>k. nat (min (int (length ?p0) - 1) \<lfloor>0 + real k\<rfloor>)) ` {0..<nat \<lceil>0.08 * real w\<rceil>}"
      and b: "j \<notin> (\<lambda>k. nat (min (int (length p1) - 1) \<lfloor>?ppw * 4 + real k\<rfloor>)) ` {0..<nat \<lceil>0.08 * real w\<rceil>}"
      unfolding l0 l1 by (simp_all add: flutterWindows_def set_spikeIndices)
    from flutterSpike_frame [OF s2 b] flutterSpike_frame [OF s1 a] show ?thesis by simp
  qed
  from assms(1,2) have p: "0 < p"
    by (cases p) simp_all
  have y: "snd (?p0 ! j) = baseline - \<bar>jsRem (real j) (real p) / real p - 0.5\<bar> * 2 * 18 * 0.5"
    if "j < w" for j
    using snd_flutterWaves [of j "real w" 18 ?ppw] that unfolding assms(2) [symmetric] by simp
  have "snd (p2 ! i) = snd (?p0 ! i)" "snd (p2 ! (i + p)) = snd (?p0 ! (i + p))"
    using keep [OF assms(4)] keep [OF assms(5)] by simp_all
  moreover have "snd (?p0 ! i) = snd (?p0 ! (i + p))"
    using y [of i] y [of "i + p"] assms(3) jsRem_shift [OF p, of i] by simp
  ultimately show ?thesis using g l2 by simp
qed

text \<open>
  Claim C7 at the width 750 of the strip: the flutter wave is 150 pixels long, and the
  indices 100 and 250 lie outside the two overlay windows.
\<close>

theorem genAflutter_periodic_witness:
  "(0::nat) < 750 \<and> real (150::nat) = real (750::nat) * (60 / 300) \<and> (100::nat) + 150 < 750
   \<and> 100 \<notin> set (flutterWindows (real (750::nat)))
   \<and> 100 + 150 \<notin> set (flutterWindows (real (750::nat)))
   \<and> (\<exists>points. genAflutter (real (750::nat)) 18 300 = Some (Inr points) \<and> length points = 750
           \<and> snd (points ! 100) = snd (points ! (100 + 150)))"
proof -
  have h: "(0::nat) < 750" "real (150::nat) = real (750::nat) * (60 / 300)" "(100::nat) + 150 < 750"
    by simp_all
  have m: "100 \<notin> set (flutterWindows (real (750::nat)))"
    "100 + 150 \<notin> set (flutterWindows (real (750::nat)))"
    using flutterWindows_750 by simp_all
  from genAflutter_periodic [OF h m] h m show ?thesis by blast
qed

section \<open>Atrial fibrillation\<close>

text \<open>
  The index of the fibrillation overlay is the floor of \<open>cursor + k\<close>, which the guard
  keeps below the width; with a cursor that is not negative and an array at least as long
  as the width, it is an element of the array.
\<close>

lemma afibSpike_ok:
  "0 \<le> cursor \<Longrightarrow> width \<le> real (length points)
     \<Longrightarrow> \<exists>points'. afibSpike width cursor k points = Inr points'
           \<and> map fst points' = map fst points"
proof (induction width cursor k points rule: afibSpike.induct)
  case (1 width cursor k points)
  show ?case
  proof (cases "real k < 0.06 * width \<and> cursor + real k < width")
    case False
    then show ?thesis by (subst afibSpike.simps) auto
  next
    case True
    let ?i = "\<lfloor>cursor + real k\<rfloor>"
    let ?y = "90 - (if real k < 0.02 * width then - 4 else if real k < 0.03 * width then 18 else - 6)"
    have "0 \<le> cursor + real k" using 1(2) by simp
    then have "0 \<le> ?i" by linarith
    moreover have "cursor + real k < real (length points)" using True 1(3) by linarith
    then have "?i < int (length points)" by linarith
    ultimately obtain p where
      p: "setY points ?i ?y = Inr p" "map fst p = map fst points" "length p = length points"
      using setY_Inr [of ?i points ?y] by blast
    then have "width \<le> real (length p)" using 1(3) by simp
    from 1(1) [OF True p(1) 1(2) this] obtain q where
      "afibSpike width cursor (Suc k) p = Inr q" "map fst q = map fst p"
      by blast
    with p True show ?thesis
      by (subst afibSpike.simps) simp
  qed
qed

text \<open>
  Every draw lies from 0 up to 1, so every \<^verbatim>\<open>rr\<close> is at least a tenth of the width: the
  cursor never decreases and passes the width within \<open>m\<close> rounds when it is no more than
  \<open>m\<close> tenths of the width away.
\<close>

lemma afibBeats_ok:
  assumes w: "0 < width" and d: "\<forall>n. 0 \<le> draws n \<and> draws n < 1"
  shows "width - cursor \<le> real m * (0.1 * width) \<Longrightarrow> 0 \<le> cursor
     \<Longrightarrow> width \<le> real (length points)
     \<Longrightarrow> \<exists>points'. afibBeats width draws n cursor points = Some (Inr points')
           \<and> map fst points' = map fst points"
proof (induction m arbitrary: cursor n points)
  case 0
  then have "\<not> cursor < width" by simp
  then show ?case by (subst afibBeats.simps) simp
next
  case (Suc m)
  show ?case
  proof (cases "cursor < width")
    case False
    then show ?thesis by (subst afibBeats.simps) simp
  next
    case True
    let ?rr = "rand (draws n) 0.5 1.1 * width * 0.2"
    from afibSpike_ok [OF Suc(3) Suc(4), of 0] obtain p where
      p: "afibSpike width cursor 0 points = Inr p" "map fst p = map fst points"
      by blast
    have "0.5 \<le> rand (draws n) 0.5 1.1"
      using d by (simp add: rand_def)
    then have "0.5 * (width * 0.2) \<le> rand (draws n) 0.5 1.1 * (width * 0.2)"
      using w by (intro mult_right_mono) simp_all
    then have rr: "0.1 * width \<le> ?rr" by simp
    have a: "width - (cursor + ?rr) \<le> real m * (0.1 * width)"
      using Suc(2) rr by (simp add: algebra_simps)
    have b: "0 \<le> cursor + ?rr" using Suc(3) rr w by linarith
    have "length p = length points" using p(2) by (metis length_map)
    then have c: "width \<le> real (length p)" using Suc(4) by simp
    from Suc(1) [OF a b c, of "Suc n"] obtain q where
      "afibBeats width draws (Suc n) (cursor + ?rr) p = Some (Inr q)" "map fst q = map fst p"
      by blast
    with p True show ?thesis
      by (subst afibBeats.simps) (simp add: Let_def)
  qed
qed

lemma fst_afibWalk: "map fst (afibWalk width draws i y) = map real [i..<nat \<lceil>width\<rceil>]"
proof (induction width draws i y rule: afibWalk.induct)
  case (1 width draws i y)
  show ?case
  proof (cases "real i < width")
    case True
    then have "i < nat \<lceil>width\<rceil>" by linarith
    with True 1 show ?thesis
      by (subst afibWalk.simps) (simp add: Let_def upt_conv_Cons)
  next
    case False
    then have "\<not> i < nat \<lceil>width\<rceil>" by linarith
    with False show ?thesis by (subst afibWalk.simps) simp
  qed
qed

lemma genAfib_ok:
  assumes w: "0 < w" and d: "\<forall>n. 0 \<le> draws n \<and> draws n < 1"
  shows "\<exists>points. genAfib (real w) draws = Some (Inr points) \<and> map fst points = map real [0..<w]"
proof -
  let ?p = "afibWalk (real w) draws 0 baseline"
  have f: "map fst ?p = map real [0..<w]"
    by (simp add: fst_afibWalk)
  then have "length ?p = w" by (rule length_of_fst)
  then have l: "real w \<le> real (length ?p)" by simp
  have m: "real w - 0 \<le> real (10::nat) * (0.1 * real w)" by simp
  from w have w': "0 < real w" by simp
  from afibBeats_ok [OF w' d m _ l, of "length ?p"] f show ?thesis
    by (simp add: genAfib_def Let_def)
qed

text \<open>
  Claim C10: for every positive whole width \<open>w\<close> and every sequence of draws (each from 0
  up to, not including, 1, as \<^verbatim>\<open>Math.random()\<close> gives them), \<^verbatim>\<open>genAflutter\<close> and
  \<^verbatim>\<open>genAfib\<close> both return, neither throws on a write outside the array, and each
  returns exactly \<open>w\<close> samples whose time-positions are 0, 1, ..., \<open>w - 1\<close>, strictly
  increasing.
\<close>

theorem genAflutter_genAfib_in_bounds:
  assumes "0 < w" and "\<forall>n. 0 \<le> draws n \<and> draws n < 1"
  shows "(\<exists>points. genAflutter (real w) 18 300 = Some (Inr points)
            \<and> length points = w \<and> map fst points = map real [0..<w]
            \<and> sorted_wrt (<) (map fst points))
       \<and> (\<exists>points. genAfib (real w) draws = Some (Inr points)
            \<and> length points = w \<and> map fst points = map real [0..<w]
            \<and> sorted_wrt (<) (map fst points))"
proof -
  have r: "length points = w \<and> sorted_wrt (<) (map fst points)"
    if "map fst points = map real [0..<w]" for points :: "Point list"
  proof -
    have "length points = w" using that by (rule length_of_fst)
    moreover have "sorted_wrt (<) (map real [0..<w])"
      by (simp add: sorted_wrt_map sorted_wrt_iff_nth_less)
    ultimately show ?thesis by (simp only: that simp_thms)
  qed
  from genAflutter_ok [OF assms(1), of 18] genAfib_ok [OF assms] r
  show ?thesis by blast
qed

text \<open>Claim C10 at the width 750 of the strip, with every draw equal to one half.\<close>

theorem genAflutter_genAfib_in_bounds_witness:
  "(0::nat) < 750 \<and> (\<forall>n. (0::real) \<le> (\<lambda>n. 1 / 2) n \<and> (\<lambda>n. 1 / 2 :: real) n < 1)
   \<and> (\<exists>points. genAflutter (real (750::nat)) 18 300 = Some (Inr points)
            \<and> length points = 750 \<and> map fst points = map real [0..<750])
   \<and> (\<exists>points. genAfib (real (750::nat)) (\<lambda>n. 1 / 2) = Some (Inr points)
            \<and> length points = 750 \<and> map fst points = map real [0..<750])"
proof -
  have w: "(0::nat) < 750" by simp
  have d: "\<forall>n. (0::real) \<le> (\<lambda>n. 1 / 2) n \<and> (\<lambda>n. 1 / 2 :: real) n < 1" by simp
  from genAflutter_genAfib_in_bounds [OF w d] w d show ?thesis by blast
qed

section \<open>The extent of a strip\<close>

lemma beatLoop_bounds:
  assumes step: "0 < step"
    and b: "\<And>c j p. 10 \<le> c \<Longrightarrow> c < STRIP_WIDTH - 10 \<Longrightarrow> p \<in> set (beat c j) \<Longrightarrow> lo \<le> fst p \<and> fst p < hi"
  shows "\<exists>points. beatLoop beat step 10 0 [] = Some points \<and> (\<forall>p\<in>set points. lo \<le> fst p \<and> fst p < hi)"
proof -
  let ?n = "nat \<lceil>(STRIP_WIDTH - 10 - 10) / step\<rceil>"
  let ?pts = "concat (map (\<lambda>j. beat (10 + real j * step) (0 + j)) [0..<?n])"
  have e: "beatLoop beat step 10 0 [] = Some ?pts"
    using beatLoop_unroll [OF step, of beat 10 0 "[]"] by simp
  have "lo \<le> fst p \<and> fst p < hi" if "p \<in> set ?pts" for p
  proof -
    from that obtain j where j: "j < ?n" and m: "p \<in> set (beat (10 + real j * step) (0 + j))"
      by auto
    from j have "real j < (STRIP_WIDTH - 10 - 10) / step" by linarith
    with step have "real j * step < STRIP_WIDTH - 10 - 10"
      by (simp add: pos_less_divide_eq)
    then have u: "10 + real j * step < STRIP_WIDTH - 10" by simp
    have l: "10 \<le> 10 + real j * step" using step by simp
    from b [OF l u m] show ?thesis .
  qed
  with e show ?thesis by blast
qed

text \<open>
  A beat that records the cursor it is given shows where the loop inserts beats: at
  cursor positions below \<open>STRIP_WIDTH - 10\<close> only.
\<close>

lemma probe_cursor:
  assumes "0 < step"
  shows "\<exists>cs. beatLoop (\<lambda>cursor beatIndex. [(cursor, real beatIndex)]) step 10 0 [] = Some cs
           \<and> (\<forall>q\<in>set cs. fst q < STRIP_WIDTH - 10)"
proof -
  have "\<exists>points. beatLoop (\<lambda>cursor beatIndex. [(cursor, real beatIndex)]) step 10 0 [] = Some points
          \<and> (\<forall>p\<in>set points. - 1 \<le> fst p \<and> fst p < STRIP_WIDTH - 10)"
  proof (rule beatLoop_bounds [OF assms])
    fix c :: real and j :: nat and p :: Point
    assume "10 \<le> c" "c < STRIP_WIDTH - 10" "p \<in> set [(c, real j)]"
    then show "- 1 \<le> fst p \<and> fst p < STRIP_WIDTH - 10" by auto
  qed
  then show ?thesis by blast
qed

text \<open>
  Claim C1, as stated, fails: the guard of the loop bounds where a beat starts, not where
  it ends. The last beat of the strip for \<^verbatim>\<open>"sinus"\<close> starts at 710 and is 65 pixels
  long, so the strip has the sample (774, 90), beyond the strip width 750.
\<close>

theorem sinus_strip_exceeds_width:
  "buildStrip ''sinus'' (\<lambda>n. 0)
     = Some (Inr (concat (map (\<lambda>c. genNormalBeat c PX_PER_SEC noOptions) starts100)))
   \<and> (774, 90) \<in> set (concat (map (\<lambda>c. genNormalBeat c PX_PER_SEC noOptions) starts100))
   \<and> \<not> 774 \<le> STRIP_WIDTH"
proof -
  have "(774, 90) \<in> set (returnPoints (tStart 710 PX_PER_SEC noOptions) PX_PER_SEC)"
    by (simp add: returnPoints_def dur_defs noOptions_def width_simps forPush_eq upt_conv_Cons baseline_def)
  then have "(774, 90) \<in> set (genNormalBeat 710 PX_PER_SEC noOptions)"
    by (simp add: genNormalBeat_def)
  then have "(774, 90) \<in> set (concat (map (\<lambda>c. genNormalBeat c PX_PER_SEC noOptions) starts100))"
    by (simp add: starts100_def)
  then show ?thesis
    using sinus_strip [of "\<lambda>n. 0"] by (simp add: width_simps)
qed

lemma reaches_iff:
  "reaches r e
     \<longleftrightarrow> (\<exists>points. r = Some (Inr points) \<and> (\<forall>p \<in> set points. 0 \<le> fst p \<and> fst p \<le> e)
            \<and> (\<exists>p \<in> set points. fst p = e))"
  by (auto simp: reaches_def list_all_iff list_ex_iff split: option.splits sum.splits)

text \<open>
  The last sample of a beat lies at \<open>beatEnd\<close>, and with a QRS duration that is not
  negative no sample of the beat lies beyond it.
\<close>

lemma beatEnd_shift: "beatEnd x0 pxPerSec options = x0 + beatEnd 0 pxPerSec options"
  by (simp add: beatEnd_def tStart_def stStart_def qrsStart_def)

lemma beatEnd_in_beat:
  assumes "0 < pxPerSec"
  shows "(beatEnd x0 pxPerSec options, baseline) \<in> set (genNormalBeat x0 pxPerSec options)"
proof -
  from assms have "0 < returnDuration pxPerSec" by (simp add: returnDuration_def)
  then have n: "0 < nat \<lceil>returnDuration pxPerSec\<rceil>" by linarith
  then have "nat \<lceil>returnDuration pxPerSec\<rceil> - 1 \<in> {0..<nat \<lceil>returnDuration pxPerSec\<rceil>}" by simp
  then have "(tStart x0 pxPerSec options + tDuration pxPerSec
                + real (nat \<lceil>returnDuration pxPerSec\<rceil> - 1), baseline)
      \<in> set (returnPoints (tStart x0 pxPerSec options) pxPerSec)"
    unfolding returnPoints_def set_forPush by (rule image_eqI [rotated]) simp
  then show ?thesis by (simp add: beatEnd_def genNormalBeat_def)
qed

lemma beat_le_end:
  assumes px: "0 < pxPerSec" and q: "0 \<le> orDefault 0.08 (qrs options)"
    and p: "p \<in> set (genNormalBeat x0 pxPerSec options)"
  shows "x0 \<le> fst p \<and> fst p \<le> beatEnd x0 pxPerSec options"
proof -
  let ?ts = "beatTimes x0 pxPerSec options"
  from p have t: "fst p \<in> set ?ts" by (simp add: beatTimes_def)
  then have ne: "?ts \<noteq> []" by auto
  from covers_beat [OF px q, of x0] ne
  have c: "hd ?ts = x0" "sorted_wrt (<) ?ts"
    by (simp_all add: covers_def)
  from px have "0 < returnDuration pxPerSec" by (simp add: returnDuration_def)
  then have n: "0 < nat \<lceil>returnDuration pxPerSec\<rceil>" by linarith
  then have "map fst (returnPoints (tStart x0 pxPerSec options) pxPerSec) \<noteq> []"
    by (simp add: returnPoints_def forPush_eq)
  then have l: "last ?ts = last (map fst (returnPoints (tStart x0 pxPerSec options) pxPerSec))"
    by (simp add: beatTimes_def genNormalBeat_def)
  have "last (map fst (returnPoints (tStart x0 pxPerSec options) pxPerSec)) = beatEnd x0 pxPerSec options"
    using n by (simp add: returnPoints_def forPush_eq beatEnd_def last_map comp_def)
  with l have "last ?ts = beatEnd x0 pxPerSec options" by simp
  with strict_le_last [OF c(2) t] strict_hd_le [OF c(2) t] c(1) show ?thesis by simp
qed

lemma beatLoop_reaches:
  assumes step: "0 < step" and n: "nat \<lceil>(STRIP_WIDTH - 10 - 10) / step\<rceil> = Suc m"
    and b: "\<And>j p. j \<le> m \<Longrightarrow> p \<in> set (beat (10 + real j * step) j) \<Longrightarrow> 0 \<le> fst p \<and> fst p \<le> e"
    and t: "\<exists>p \<in> set (beat (10 + real m * step) m). fst p = e"
  shows "reaches (returned (beatLoop beat step 10 0 [])) e"
proof -
  let ?pts = "concat (map (\<lambda>j. beat (10 + real j * step) (0 + j)) [0..<Suc m])"
  have e: "beatLoop beat step 10 0 [] = Some ?pts"
    using beatLoop_unroll [OF step, of beat 10 0 "[]"] unfolding n by simp
  have 1: "0 \<le> fst p \<and> fst p \<le> e" if "p \<in> set ?pts" for p
  proof -
    from that obtain j where "j < Suc m" "p \<in> set (beat (10 + real j * step) (0 + j))"
      by (auto simp del: upt_Suc)
    then show ?thesis using b [of j p] by simp
  qed
  from t obtain p where p: "p \<in> set (beat (10 + real m * step) m)" "fst p = e"
    by blast
  then have "p \<in> set ?pts" by (auto simp del: upt_Suc)
  with p(2) have 2: "\<exists>p \<in> set ?pts. fst p = e" by blast
  show ?thesis
    unfolding reaches_iff e returned_def using 1 2 by simp
qed

lemma tiles_reach:
  assumes step: "0 < step" and n: "nat \<lceil>(STRIP_WIDTH - 10 - 10) / step\<rceil> = Suc m"
    and px: "0 < pxPerSec" and q: "0 \<le> orDefault 0.08 (qrs options)"
    and e: "beatEnd (10 + real m * step) pxPerSec options = e"
  shows "reaches (returned (beatLoop (\<lambda>cursor beatIndex. genNormalBeat cursor pxPerSec options) step 10 0 [])) e"
proof (rule beatLoop_reaches [OF step n])
  fix j :: nat and p :: Point
  assume j: "j \<le> m" and p: "p \<in> set (genNormalBeat (10 + real j * step) pxPerSec options)"
  from j step have "real j * step \<le> real m * step" by simp
  then have "beatEnd (10 + real j * step) pxPerSec options \<le> e"
    unfolding e [symmetric] by (subst beatEnd_shift, subst (2) beatEnd_shift) simp
  moreover have "0 \<le> 10 + real j * step" using step by simp
  ultimately show "0 \<le> fst p \<and> fst p \<le> e"
    using beat_le_end [OF px q p] by linarith
next
  show "\<exists>p \<in> set (genNormalBeat (10 + real m * step) pxPerSec options). fst p = e"
    using beatEnd_in_beat [OF px, of "10 + real m * step" options] unfolding e by force
qed

lemma upto_reaches:
  assumes "r = Some (Inr points)" "map fst points = map real [0..<Suc n]"
  shows "reaches r (real n)"
proof -
  have 1: "0 \<le> fst p \<and> fst p \<le> real n" if "p \<in> set points" for p
  proof -
    from that have "fst p \<in> set (map fst points)" by simp
    then obtain k where "k < Suc n" "fst p = real k"
      unfolding assms(2) by (auto simp del: upt_Suc)
    then show ?thesis by simp
  qed
  have "real n \<in> set (map fst points)"
    unfolding assms(2) by (auto simp del: upt_Suc)
  then obtain p where "p \<in> set points" "fst p = real n" by auto
  then have "\<exists>p \<in> set points. fst p = real n" by blast
  with 1 assms(1) show ?thesis unfolding reaches_iff by blast
qed

lemma px_pos: "0 < PX_PER_SEC" "0 < PX_PER_SEC * 0.7"
  by (simp_all add: width_simps)

lemma sinus_reaches:
  "reaches (returned (genSinusStrip 75 noOptions)) 774"
  "reaches (returned (genSinusStrip 48 noOptions)) 699"
  "reaches (returned (genSinusStrip 120 noOptions)) 761.5"
proof -
  have q: "0 \<le> orDefault 0.08 (qrs noOptions)" by (simp add: noOptions_def orDefault_def)
  have "reaches (returned (beatLoop (\<lambda>cursor beatIndex. genNormalBeat cursor PX_PER_SEC noOptions)
          (60 / 75 * PX_PER_SEC) 10 0 [])) 774"
    by (rule tiles_reach [where m = 7, OF _ _ px_pos(1) q])
      (simp_all add: width_simps beatEnd_def dur_defs noOptions_def)
  then show "reaches (returned (genSinusStrip 75 noOptions)) 774"
    by (simp add: genSinusStrip_def)
  have "reaches (returned (beatLoop (\<lambda>cursor beatIndex. genNormalBeat cursor PX_PER_SEC noOptions)
          (60 / 48 * PX_PER_SEC) 10 0 [])) 699"
    by (rule tiles_reach [where m = 4, OF _ _ px_pos(1) q])
      (simp_all add: width_simps beatEnd_def dur_defs noOptions_def)
  then show "reaches (returned (genSinusStrip 48 noOptions)) 699"
    by (simp add: genSinusStrip_def)
  have "reaches (returned (beatLoop (\<lambda>cursor beatIndex. genNormalBeat cursor PX_PER_SEC noOptions)
          (60 / 120 * PX_PER_SEC) 10 0 [])) 761.5"
    by (rule tiles_reach [where m = 11, OF _ _ px_pos(1) q])
      (simp_all add: width_simps beatEnd_def dur_defs noOptions_def)
  then show "reaches (returned (genSinusStrip 120 noOptions)) 761.5"
    by (simp add: genSinusStrip_def)
qed

lemma inline_reaches:
  "reaches (returned (beatLoop
          (\<lambda>cursor beatIndex. genNormalBeat cursor (PX_PER_SEC * 0.7)
             (noOptions\<lparr>amp := Some 18, pr := Some 0.1, qrs := Some 0.06\<rparr>))
          (0.4 * PX_PER_SEC) 10 0 [])) 748"
  "reaches (returned (beatLoop
          (\<lambda>cursor beatIndex. genNormalBeat cursor PX_PER_SEC
             (noOptions\<lparr>amp := Some 16, pr := Some 0.06, tPolarity := Some (- 1)\<rparr>))
          (1.0 * PX_PER_SEC) 10 0 [])) 689"
  "reaches (returned (beatLoop
          (\<lambda>cursor beatIndex. genNormalBeat cursor PX_PER_SEC (noOptions\<lparr>pr := Some 0.26\<rparr>))
          (0.8 * PX_PER_SEC) 10 0 [])) 786.5"
  "reaches (returned (beatLoop
          (\<lambda>cursor beatIndex. genNormalBeat cursor PX_PER_SEC (noOptions\<lparr>stElevation := Some (- 6)\<rparr>))
          (0.8 * PX_PER_SEC) 10 0 [])) 774"
  "reaches (returned (beatLoop
          (\<lambda>cursor beatIndex. genNormalBeat cursor PX_PER_SEC
             (noOptions\<lparr>stElevation := Some 3, tPolarity := Some (- 1)\<rparr>))
          (0.8 * PX_PER_SEC) 10 0 [])) 774"
proof -
  show "reaches (returned (beatLoop
          (\<lambda>cursor beatIndex. genNormalBeat cursor (PX_PER_SEC * 0.7)
             (noOptions\<lparr>amp := Some 18, pr := Some 0.1, qrs := Some 0.06\<rparr>))
          (0.4 * PX_PER_SEC) 10 0 [])) 748"
    by (rule tiles_reach [where m = 14, OF _ _ px_pos(2)])
      (simp_all add: width_simps beatEnd_def dur_defs noOptions_def)
  show "reaches (returned (beatLoop
          (\<lambda>cursor beatIndex. genNormalBeat cursor PX_PER_SEC
             (noOptions\<lparr>amp := Some 16, pr := Some 0.06, tPolarity := Some (- 1)\<rparr>))
          (1.0 * PX_PER_SEC) 10 0 [])) 689"
    by (rule tiles_reach [where m = 5, OF _ _ px_pos(1)])
      (simp_all add: width_simps beatEnd_def dur_defs noOptions_def)
  show "reaches (returned (beatLoop
          (\<lambda>cursor beatIndex. genNormalBeat cursor PX_PER_SEC (noOptions\<lparr>pr := Some 0.26\<rparr>))
          (0.8 * PX_PER_SEC) 10 0 [])) 786.5"
    by (rule tiles_reach [where m = 7, OF _ _ px_pos(1)])
      (simp_all add: width_simps beatEnd_def dur_defs noOptions_def)
  show "reaches (returned (beatLoop
          (\<lambda>cursor beatIndex. genNormalBeat cursor PX_PER_SEC (noOptions\<lparr>stElevation := Some (- 6)\<rparr>))
          (0.8 * PX_PER_SEC) 10 0 [])) 774"
    by (rule tiles_reach [where m = 7, OF _ _ px_pos(1)])
      (simp_all add: width_simps beatEnd_def dur_defs noOptions_def)
  show "reaches (returned (beatLoop
          (\<lambda>cursor beatIndex. genNormalBeat cursor PX_PER_SEC
             (noOptions\<lparr>stElevation := Some 3, tPolarity := Some (- 1)\<rparr>))
          (0.8 * PX_PER_SEC) 10 0 [])) 774"
    by (rule tiles_reach [where m = 7, OF _ _ px_pos(1)])
      (simp_all add: width_simps beatEnd_def dur_defs noOptions_def)
qed

lemma pac_reaches:
  "reaches (returned (beatLoop
          (\<lambda>cursor beatIndex.
             let earlyOffset = (if beatIndex = 2 then max (- cursor + 2) (- 0.3 * PX_PER_SEC) else 0)
             in genNormalBeat (cursor + earlyOffset) PX_PER_SEC (noOptions\<lparr>pr := Some 0.14\<rparr>))
          (0.8 * PX_PER_SEC) 10 0 [])) 771.5"
proof -
  let ?o = "noOptions\<lparr>pr := Some 0.14\<rparr>"
  let ?beat = "\<lambda>cursor beatIndex.
             let earlyOffset = (if beatIndex = 2 then max (- cursor + 2) (- 0.3 * PX_PER_SEC) else 0)
             in genNormalBeat (cursor + earlyOffset) PX_PER_SEC ?o"
  have s: "0 < 0.8 * PX_PER_SEC" by (simp add: width_simps)
  have n: "nat \<lceil>(STRIP_WIDTH - 10 - 10) / (0.8 * PX_PER_SEC)\<rceil> = Suc 7"
    by (simp add: width_simps)
  have q: "0 \<le> orDefault 0.08 (qrs ?o)" by (simp add: noOptions_def orDefault_def)
  have k: "beatEnd 0 PX_PER_SEC ?o = 61.5"
    by (simp add: beatEnd_def dur_defs noOptions_def width_simps)
  show ?thesis
  proof (rule beatLoop_reaches [OF s n])
    fix j :: nat and p :: Point
    assume j: "j \<le> 7" and m: "p \<in> set (?beat (10 + real j * (0.8 * PX_PER_SEC)) j)"
    define c where "c = 10 + real j * (0.8 * PX_PER_SEC)"
    define e where "e = (if j = 2 then max (- c + 2) (- 0.3 * PX_PER_SEC) else 0)"
    from j have "real j \<le> 7" by simp
    then have c: "10 \<le> c" "c \<le> 710" by (simp_all add: c_def width_simps)
    have e: "- c + 2 \<le> e" "e \<le> 0"
      using c by (auto simp: e_def max_def width_simps)
    from m have "p \<in> set (genNormalBeat (c + e) PX_PER_SEC ?o)"
      unfolding e_def c_def by (simp only: Let_def)
    from beat_le_end [OF px_pos(1) q this] have "c + e \<le> fst p" "fst p \<le> beatEnd (c + e) PX_PER_SEC ?o"
      by simp_all
    moreover have "beatEnd (c + e) PX_PER_SEC ?o = c + e + 61.5"
      by (subst beatEnd_shift) (simp only: k)
    ultimately show "0 \<le> fst p \<and> fst p \<le> 771.5"
      using c e by linarith
  next
    have "(beatEnd (10 + real (7::nat) * (0.8 * PX_PER_SEC)) PX_PER_SEC ?o, baseline)
        \<in> set (genNormalBeat (10 + real (7::nat) * (0.8 * PX_PER_SEC)) PX_PER_SEC ?o)"
      by (rule beatEnd_in_beat [OF px_pos(1)])
    moreover have "beatEnd (10 + real (7::nat) * (0.8 * PX_PER_SEC)) PX_PER_SEC ?o = 771.5"
      by (subst beatEnd_shift) (simp only: k, simp add: width_simps)
    ultimately show "\<exists>p \<in> set (?beat (10 + real (7::nat) * (0.8 * PX_PER_SEC)) (7::nat)). fst p = 771.5"
      by (force simp: Let_def)
  qed
qed

lemma reaches_le:
  assumes "reaches r e" "e \<le> b"
  shows "\<exists>points. r = Some (Inr points) \<and> (\<forall>p \<in> set points. 0 \<le> fst p \<and> fst p \<le> b)"
proof -
  from assms(1) obtain points where "r = Some (Inr points)"
    and "\<forall>p \<in> set points. 0 \<le> fst p \<and> fst p \<le> e"
    unfolding reaches_iff by blast
  with assms(2) show ?thesis by fastforce
qed

lemma flutter_afib_reach:
  assumes "\<forall>n. 0 \<le> draws n \<and> draws n < 1"
  shows "reaches (genAflutter STRIP_WIDTH 18 300) 749" "reaches (genAfib STRIP_WIDTH draws) 749"
proof -
  have w: "STRIP_WIDTH = real (750::nat)" by (simp add: width_simps)
  have e: "(749::real) = real (749::nat)" by simp
  from genAflutter_ok [of 750 18] obtain points where
    "genAflutter (real (750::nat)) 18 300 = Some (Inr points)" "map fst points = map real [0..<Suc 749]"
    by auto
  then show "reaches (genAflutter STRIP_WIDTH 18 300) 749"
    unfolding w e by (rule upto_reaches)
  from genAfib_ok [OF _ assms, of 750] obtain points where
    "genAfib (real (750::nat)) draws = Some (Inr points)" "map fst points = map real [0..<Suc 749]"
    by auto
  then show "reaches (genAfib STRIP_WIDTH draws) 749"
    unfolding w e by (rule upto_reaches)
qed

text \<open>
  Claim C1, amended: for every rhythm identifier (and draws from 0 up to 1)
  \<^verbatim>\<open>buildStrip\<close> returns a strip, and a tiling composer inserts a beat only at a
  cursor position below \<open>STRIP_WIDTH - 10\<close> (stated here for any positive step). The
  strips for \<^verbatim>\<open>"sinus_brady"\<close>, \<^verbatim>\<open>"psvt"\<close>, \<^verbatim>\<open>"junctional"\<close>,
  \<^verbatim>\<open>"aflutter"\<close> and \<^verbatim>\<open>"afib"\<close> never exceed the strip width and leave a
  trailing gap: every sample has a time-position of at most \<open>STRIP_WIDTH - 1\<close>; their
  last samples lie at 699, 748, 689, 749 and 749. For the other identifiers the last beat
  runs past the strip width: the last sample lies at 774 for \<^verbatim>\<open>"sinus"\<close>,
  \<^verbatim>\<open>"stemi_inferior"\<close>, \<^verbatim>\<open>"nstemi"\<close> and every identifier outside the
  enumeration, at 761.5 for \<^verbatim>\<open>"sinus_tachy"\<close>, at 771.5 for \<^verbatim>\<open>"sinus_pac"\<close> and
  at 786.5 for \<^verbatim>\<open>"firstdeg"\<close>; no sample of any strip lies before 0 or beyond
  786.5.
\<close>

theorem buildStrip_extent:
  assumes "\<forall>n. 0 \<le> draws n \<and> draws n < 1"
  shows "reaches (buildStrip ''sinus_brady'' draws) 699
    \<and> reaches (buildStrip ''psvt'' draws) 748
    \<and> reaches (buildStrip ''junctional'' draws) 689
    \<and> reaches (buildStrip ''aflutter'' draws) 749
    \<and> reaches (buildStrip ''afib'' draws) 749
    \<and> reaches (buildStrip ''sinus'' draws) 774
    \<and> reaches (buildStrip ''sinus_tachy'' draws) 761.5
    \<and> reaches (buildStrip ''sinus_pac'' draws) 771.5
    \<and> reaches (buildStrip ''firstdeg'' draws) 786.5
    \<and> reaches (buildStrip ''stemi_inferior'' draws) 774
    \<and> reaches (buildStrip ''nstemi'' draws) 774
    \<and> (kind \<notin> {''sinus'', ''sinus_brady'', ''sinus_tachy'', ''aflutter'', ''afib'', ''sinus_pac'',
                  ''psvt'', ''junctional'', ''firstdeg'', ''stemi_inferior'', ''nstemi''}
          \<longrightarrow> reaches (buildStrip kind draws) 774)
    \<and> (kind \<in> {''sinus_brady'', ''psvt'', ''junctional'', ''aflutter'', ''afib''} \<longrightarrow>
          (\<exists>points. buildStrip kind draws = Some (Inr points)
             \<and> (\<forall>p \<in> set points. 0 \<le> fst p \<and> fst p \<le> STRIP_WIDTH - 1)))
    \<and> (\<exists>points. buildStrip kind draws = Some (Inr points)
          \<and> (\<forall>p \<in> set points. 0 \<le> fst p \<and> fst p \<le> 786.5))
    \<and> (0 < step \<longrightarrow>
          (\<exists>cs. beatLoop (\<lambda>cursor beatIndex. [(cursor, real beatIndex)]) step 10 0 [] = Some cs
             \<and> (\<forall>q\<in>set cs. fst q < STRIP_WIDTH - 10)))"
proof -
  have brady: "reaches (buildStrip ''sinus_brady'' draws) 699"
    using sinus_reaches(2) by (simp add: buildStrip_def)
  have psvt: "reaches (buildStrip ''psvt'' draws) 748"
    using inline_reaches(1) by (simp add: buildStrip_def)
  have junctional: "reaches (buildStrip ''junctional'' draws) 689"
    using inline_reaches(2) by (simp add: buildStrip_def)
  have flutter: "reaches (buildStrip ''aflutter'' draws) 749"
    using flutter_afib_reach(1) [OF assms] by (simp add: buildStrip_def)
  have afib: "reaches (buildStrip ''afib'' draws) 749"
    using flutter_afib_reach(2) [OF assms] by (simp add: buildStrip_def)
  have sinus: "reaches (buildStrip ''sinus'' draws) 774"
    using sinus_reaches(1) by (simp add: buildStrip_def)
  have tachy: "reaches (buildStrip ''sinus_tachy'' draws) 761.5"
    using sinus_reaches(3) by (simp add: buildStrip_def)
  have pac: "reaches (buildStrip ''sinus_pac'' draws) 771.5"
    using pac_reaches by (simp add: buildStrip_def)
  have firstdeg: "reaches (buildStrip ''firstdeg'' draws) 786.5"
    using inline_reaches(3) by (simp add: buildStrip_def)
  have stemi: "reaches (buildStrip ''stemi_inferior'' draws) 774"
    using inline_reaches(4) by (simp add: buildStrip_def)
  have nstemi: "reaches (buildStrip ''nstemi'' draws) 774"
    using inline_reaches(5) by (simp add: buildStrip_def)
  have other: "reaches (buildStrip kind draws) 774"
    if "kind \<notin> {''sinus'', ''sinus_brady'', ''sinus_tachy'', ''aflutter'', ''afib'', ''sinus_pac'',
                  ''psvt'', ''junctional'', ''firstdeg'', ''stemi_inferior'', ''nstemi''}"
    using that sinus_reaches(1) by (simp add: buildStrip_def)
  have five: "\<exists>points. buildStrip kind draws = Some (Inr points)
             \<and> (\<forall>p \<in> set points. 0 \<le> fst p \<and> fst p \<le> STRIP_WIDTH - 1)"
    if "kind \<in> {''sinus_brady'', ''psvt'', ''junctional'', ''aflutter'', ''afib''}"
  proof -
    from that have "kind = ''sinus_brady'' \<or> kind = ''psvt'' \<or> kind = ''junctional'' \<or> kind = ''aflutter'' \<or> kind = ''afib''"
      by (simp only: insert_iff empty_iff simp_thms)
    then show ?thesis
    proof (elim disjE)
      assume k: "kind = ''sinus_brady''"
      show ?thesis unfolding k by (rule reaches_le [OF brady]) (simp add: width_simps)
    next
      assume k: "kind = ''psvt''"
      show ?thesis unfolding k by (rule reaches_le [OF psvt]) (simp add: width_simps)
    next
      assume k: "kind = ''junctional''"
      show ?thesis unfolding k by (rule reaches_le [OF junctional]) (simp add: width_simps)
    next
      assume k: "kind = ''aflutter''"
      show ?thesis unfolding k by (rule reaches_le [OF flutter]) (simp add: width_simps)
    next
      assume k: "kind = ''afib''"
      show ?thesis unfolding k by (rule reaches_le [OF afib]) (simp add: width_simps)
    qed
  qed
  have every: "\<exists>points. buildStrip kind draws = Some (Inr points)
          \<and> (\<forall>p \<in> set points. 0 \<le> fst p \<and> fst p \<le> 786.5)"
  proof (cases "kind \<in> {''sinus'', ''sinus_brady'', ''sinus_tachy'', ''aflutter'', ''afib'', ''sinus_pac'',
                  ''psvt'', ''junctional'', ''firstdeg'', ''stemi_inferior'', ''nstemi''}")
    case False
    show ?thesis by (rule reaches_le [OF other [OF False]]) simp
  next
    case True
    then have "kind = ''sinus'' \<or> kind = ''sinus_brady'' \<or> kind = ''sinus_tachy'' \<or> kind = ''aflutter'' \<or> kind = ''afib'' \<or> kind = ''sinus_pac'' \<or> kind = ''psvt'' \<or> kind = ''junctional'' \<or> kind = ''firstdeg'' \<or> kind = ''stemi_inferior'' \<or> kind = ''nstemi''"
      by (simp only: insert_iff empty_iff simp_thms)
    then show ?thesis
    proof (elim disjE)
      assume k: "kind = ''sinus''"
      show ?thesis unfolding k by (rule reaches_le [OF sinus]) simp
    next
      assume k: "kind = ''sinus_brady''"
      show ?thesis unfolding k by (rule reaches_le [OF brady]) simp
    next
      assume k: "kind = ''sinus_tachy''"
      show ?thesis unfolding k by (rule reaches_le [OF tachy]) simp
    next
      assume k: "kind = ''aflutter''"
      show ?thesis unfolding k by (rule reaches_le [OF flutter]) simp
    next
      assume k: "kind = ''afib''"
      show ?thesis unfolding k by (rule reaches_le [OF afib]) simp
    next
      assume k: "kind = ''sinus_pac''"
      show ?thesis unfolding k by (rule reaches_le [OF pac]) simp
    next
      assume k: "kind = ''psvt''"
      show ?thesis unfolding k by (rule reaches_le [OF psvt]) simp
    next
      assume k: "kind = ''junctional''"
      show ?thesis unfolding k by (rule reaches_le [OF junctional]) simp
    next
      assume k: "kind = ''firstdeg''"
      show ?thesis unfolding k by (rule reaches_le [OF firstdeg]) simp
    next
      assume k: "kind = ''stemi_inferior''"
      show ?thesis unfolding k by (rule reaches_le [OF stemi]) simp
    next
      assume k: "kind = ''nstemi''"
      show ?thesis unfolding k by (rule reaches_le [OF nstemi]) simp
    qed
  qed
  show ?thesis
    by (intro conjI impI;
        (fact brady psvt junctional flutter afib sinus tachy pac firstdeg stemi nstemi every
         | erule other | erule five | erule probe_cursor))
qed

text \<open>
  The amended claim C1 with every draw equal to 0, at an identifier outside the
  enumeration, at \<^verbatim>\<open>"psvt"\<close> and at the step of 100 pixels.
\<close>

theorem buildStrip_extent_witness:
  "(\<forall>n. (0::real) \<le> (\<lambda>n. 0) n \<and> (\<lambda>n. 0::real) n < 1)
   \<and> reaches (buildStrip ''sinus'' (\<lambda>n. 0)) 774
   \<and> reaches (buildStrip ''sinus_brady'' (\<lambda>n. 0)) 699
   \<and> ''vtach'' \<notin> {''sinus'', ''sinus_brady'', ''sinus_tachy'', ''aflutter'', ''afib'', ''sinus_pac'',
                  ''psvt'', ''junctional'', ''firstdeg'', ''stemi_inferior'', ''nstemi''}
   \<and> reaches (buildStrip ''vtach'' (\<lambda>n. 0)) 774
   \<and> ''psvt'' \<in> {''sinus_brady'', ''psvt'', ''junctional'', ''aflutter'', ''afib''}
   \<and> (\<exists>points. buildStrip ''psvt'' (\<lambda>n. 0) = Some (Inr points)
         \<and> (\<forall>p \<in> set points. 0 \<le> fst p \<and> fst p \<le> STRIP_WIDTH - 1))
   \<and> (0::real) < 100
   \<and> (\<exists>cs. beatLoop (\<lambda>cursor beatIndex. [(cursor, real beatIndex)]) 100 10 0 [] = Some cs
         \<and> (\<forall>q\<in>set cs. fst q < STRIP_WIDTH - 10))"
proof -
  have d: "\<forall>n. (0::real) \<le> (\<lambda>n. 0) n \<and> (\<lambda>n. 0::real) n < 1" by simp
  have s: "(0::real) < 100" by simp
  have v: "''vtach'' \<notin> {''sinus'', ''sinus_brady'', ''sinus_tachy'', ''aflutter'', ''afib'', ''sinus_pac'',
                  ''psvt'', ''junctional'', ''firstdeg'', ''stemi_inferior'', ''nstemi''}"
    by simp
  have f: "''psvt'' \<in> {''sinus_brady'', ''psvt'', ''junctional'', ''aflutter'', ''afib''}"
    by simp
  note t1 = buildStrip_extent [OF d, of "''vtach''" 100]
  note t2 = buildStrip_extent [OF d, of "''psvt''" 100]
  have 1: "reaches (buildStrip ''sinus'' (\<lambda>n. 0)) 774"
    and 2: "reaches (buildStrip ''sinus_brady'' (\<lambda>n. 0)) 699"
    and 3: "reaches (buildStrip ''vtach'' (\<lambda>n. 0)) 774"
    and 4: "\<exists>cs. beatLoop (\<lambda>cursor beatIndex. [(cursor, real beatIndex)]) 100 10 0 [] = Some cs
         \<and> (\<forall>q\<in>set cs. fst q < STRIP_WIDTH - 10)"
    using t1 by simp_all
  have 5: "\<exists>points. buildStrip ''psvt'' (\<lambda>n. 0) = Some (Inr points)
         \<and> (\<forall>p \<in> set points. 0 \<le> fst p \<and> fst p \<le> STRIP_WIDTH - 1)"
    using t2 by simp
  from d s v f 1 2 3 4 5 show ?thesis by (intro conjI)
qed

end
